theory Spec2Isabelle
  imports Complex_Main "HOL-Library.Word" "HOL-Library.Multiset" "HOL-Library.Sublist"
begin

section \<open>JavaScript strings\<close>

text \<open>
  A JavaScript string is a sequence of UTF-16 code units. \<open>str\<close> writes an ASCII
  literal as such a sequence. \<open>trim\<close> is \<open>String.prototype.trim\<close>: it removes the
  code units of the ECMAScript classes WhiteSpace and LineTerminator from both ends.
\<close>

type_synonym code_unit = "16 word"
type_synonym js_string = "code_unit list"

definition str :: "string \<Rightarrow> js_string" where
  "str s = map (\<lambda>c. of_char c) s"

definition is_white_space :: "code_unit \<Rightarrow> bool" where
  "is_white_space c \<longleftrightarrow>
     c \<in> {0x0009, 0x000A, 0x000B, 0x000C, 0x000D, 0x0020, 0x00A0, 0x1680,
          0x2028, 0x2029, 0x202F, 0x205F, 0x3000, 0xFEFF}
     \<or> (0x2000 \<le> c \<and> c \<le> 0x200A)"

definition trim :: "js_string \<Rightarrow> js_string" where
  "trim s = rev (dropWhile is_white_space (rev (dropWhile is_white_space s)))"


section \<open>components/DreamRecorder.tsx\<close>

subsection \<open>The browser and service handles held by the recorder\<close>

text \<open>
  The recorder only ever releases its handles, so a handle is modelled by what its
  release call does: return, or throw (reject, for a promise). \<open>calls\<close> in the
  recorder state logs every call made on a handle or on a callback prop, in order,
  including a call that throws.
\<close>

datatype audioNode = AudioNode (disconnectThrows: bool)

datatype mediaTrack = MediaTrack (stopThrows: bool)

datatype contextState = Suspended | Running | Closed

datatype audioContext = AudioContext (contextState: contextState) (closeRejects: bool)

datatype liveSession = LiveSession (closeThrows: bool)

datatype 'a promise = Resolved 'a | Rejected

type_synonym sessionPromise = "liveSession promise"

datatype call =
    OnRecordingStart
  | CancelAnimationFrame nat
  | TrackStop nat
  | ProcessorDisconnect
  | GainDisconnect
  | AnalyserDisconnect
  | ContextClose
  | SessionClose
  | OnRecordingComplete js_string

record recorder =
  isRecording :: bool
  finalTranscription :: js_string
  interimTranscription :: js_string
  sensitivity :: rat
  audioLevel :: rat
  sessionPromiseRef :: "sessionPromise option"
  audioContextRef :: "audioContext option"
  scriptProcessorRef :: "audioNode option"
  mediaStreamRef :: "mediaTrack list option"
  transcriptionRef :: js_string
  gainNodeRef :: "audioNode option"
  analyserNodeRef :: "audioNode option"
  animationFrameIdRef :: "nat option"
  calls :: "call list"

text \<open>
  A run of an async function either returns (\<open>Normal\<close>) or ends with an uncaught
  exception or rejected await (\<open>Abrupt\<close>); both carry the recorder state reached.
\<close>

datatype 's outcome = Normal 's | Abrupt 's

fun state_of :: "'s outcome \<Rightarrow> 's" where
  "state_of (Normal s) = s"
| "state_of (Abrupt s) = s"

fun run_steps :: "('s \<Rightarrow> 's outcome) list \<Rightarrow> 's \<Rightarrow> 's outcome" where
  "run_steps [] s = Normal s"
| "run_steps (f # fs) s = (case f s of Normal s' \<Rightarrow> run_steps fs s' | Abrupt s' \<Rightarrow> Abrupt s')"

subsection \<open>createBlob\<close>

text \<open>
  A Float32Array element is a finite binary32 value, an infinity or NaN. Every finite
  binary32 value is a rational with a 24-bit significand, so its product with 32768 or
  32767 is exact in the double arithmetic of JavaScript and \<open>Finite\<close> carries the exact
  value. Storing a number into an Int16Array applies ToInt16: NaN and the infinities
  become 0, any other number is truncated towards zero and reduced modulo \<open>2 ^ 16\<close>.
\<close>

datatype float32 = Finite rat | PosInfinity | NegInfinity | NaN

fun less_zero :: "float32 \<Rightarrow> bool" where
  "less_zero (Finite x) = (x < 0)"
| "less_zero NegInfinity = True"
| "less_zero PosInfinity = False"
| "less_zero NaN = False"

fun times :: "float32 \<Rightarrow> int \<Rightarrow> float32" where
  "times (Finite x) k = Finite (x * of_int k)"
| "times PosInfinity k = (if 0 < k then PosInfinity else if k < 0 then NegInfinity else NaN)"
| "times NegInfinity k = (if 0 < k then NegInfinity else if k < 0 then PosInfinity else NaN)"
| "times NaN k = NaN"

definition trunc :: "rat \<Rightarrow> int" where
  "trunc x = (if 0 \<le> x then \<lfloor>x\<rfloor> else \<lceil>x\<rceil>)"

fun ToInt16 :: "float32 \<Rightarrow> 16 word" where
  "ToInt16 (Finite x) = word_of_int (trunc x)"
| "ToInt16 PosInfinity = 0"
| "ToInt16 NegInfinity = 0"
| "ToInt16 NaN = 0"

definition sample_to_int16 :: "float32 \<Rightarrow> 16 word" where
  "sample_to_int16 x = ToInt16 (if less_zero x then times x 32768 else times x 32767)"

definition createBlob_int16 :: "float32 list \<Rightarrow> 16 word list" where
  "createBlob_int16 data = map sample_to_int16 data"

subsection \<open>stopRecording\<close>

text \<open>
  Each definition below is one statement block of \<open>stopRecording\<close>, in source order.
  A ref is tested for truthiness, so an animation frame id of 0 counts as absent. When a
  call throws, the assignment of \<open>null\<close> that follows it does not run.
  \<open>isRecording\<close> is the value of the state variable that the callback reads, and
  \<open>setIsRecording(false)\<close> is modelled as taking effect for the next call.
  \<open>stopRecording\<close> is the run in which no other callback runs at the two
  \<open>await\<close>s; \<open>stopRecording_interleaved\<close>, further down, is the run with other
  callbacks in between, as happens when \<open>App\<close> mounts the recorder.
\<close>

definition resetFlags :: "recorder \<Rightarrow> recorder outcome" where
  "resetFlags r = Normal (r\<lparr>isRecording := False, audioLevel := 0\<rparr>)"

definition cancelVisualization :: "recorder \<Rightarrow> recorder outcome" where
  "cancelVisualization r =
     (case animationFrameIdRef r of
        None \<Rightarrow> Normal r
      | Some n \<Rightarrow>
          if n = 0 then Normal r
          else Normal (r\<lparr>calls := calls r @ [CancelAnimationFrame n], animationFrameIdRef := None\<rparr>))"

fun forEach_stop :: "nat \<Rightarrow> mediaTrack list \<Rightarrow> call list \<times> bool" where
  "forEach_stop i [] = ([], True)"
| "forEach_stop i (t # ts) =
     (if stopThrows t then ([TrackStop i], False)
      else (TrackStop i # fst (forEach_stop (Suc i) ts), snd (forEach_stop (Suc i) ts)))"

definition stopMediaTracks :: "recorder \<Rightarrow> recorder outcome" where
  "stopMediaTracks r =
     (case mediaStreamRef r of
        None \<Rightarrow> Normal r
      | Some tracks \<Rightarrow>
          if snd (forEach_stop 0 tracks)
          then Normal (r\<lparr>calls := calls r @ fst (forEach_stop 0 tracks), mediaStreamRef := None\<rparr>)
          else Abrupt (r\<lparr>calls := calls r @ fst (forEach_stop 0 tracks)\<rparr>))"

definition disconnectProcessor :: "recorder \<Rightarrow> recorder outcome" where
  "disconnectProcessor r =
     (case scriptProcessorRef r of
        None \<Rightarrow> Normal r
      | Some n \<Rightarrow>
          if disconnectThrows n then Abrupt (r\<lparr>calls := calls r @ [ProcessorDisconnect]\<rparr>)
          else Normal (r\<lparr>calls := calls r @ [ProcessorDisconnect], scriptProcessorRef := None\<rparr>))"

definition disconnectGain :: "recorder \<Rightarrow> recorder outcome" where
  "disconnectGain r =
     (case gainNodeRef r of
        None \<Rightarrow> Normal r
      | Some n \<Rightarrow>
          if disconnectThrows n then Abrupt (r\<lparr>calls := calls r @ [GainDisconnect]\<rparr>)
          else Normal (r\<lparr>calls := calls r @ [GainDisconnect], gainNodeRef := None\<rparr>))"

definition disconnectAnalyser :: "recorder \<Rightarrow> recorder outcome" where
  "disconnectAnalyser r =
     (case analyserNodeRef r of
        None \<Rightarrow> Normal r
      | Some n \<Rightarrow>
          if disconnectThrows n then Abrupt (r\<lparr>calls := calls r @ [AnalyserDisconnect]\<rparr>)
          else Normal (r\<lparr>calls := calls r @ [AnalyserDisconnect], analyserNodeRef := None\<rparr>))"

definition closeAudioContext :: "recorder \<Rightarrow> recorder outcome" where
  "closeAudioContext r =
     (case audioContextRef r of
        None \<Rightarrow> Normal r
      | Some ctx \<Rightarrow>
          if contextState ctx = Closed then Normal r
          else if closeRejects ctx then Abrupt (r\<lparr>calls := calls r @ [ContextClose]\<rparr>)
          else Normal (r\<lparr>calls := calls r @ [ContextClose], audioContextRef := None\<rparr>))"

definition closeSession :: "recorder \<Rightarrow> recorder outcome" where
  "closeSession r =
     (case sessionPromiseRef r of
        None \<Rightarrow> Normal r
      | Some Rejected \<Rightarrow> Abrupt r
      | Some (Resolved session) \<Rightarrow>
          if closeThrows session then Abrupt (r\<lparr>calls := calls r @ [SessionClose]\<rparr>)
          else Normal (r\<lparr>calls := calls r @ [SessionClose], sessionPromiseRef := None\<rparr>))"

definition deliverTranscript :: "recorder \<Rightarrow> recorder outcome" where
  "deliverTranscript r =
     Normal (r\<lparr>calls := calls r @ [OnRecordingComplete (trim (transcriptionRef r))]\<rparr>)"

definition stopRecording :: "recorder \<Rightarrow> recorder outcome" where
  "stopRecording r =
     (if \<not> isRecording r then Normal r
      else run_steps
        [resetFlags, cancelVisualization, stopMediaTracks, disconnectProcessor,
         disconnectGain, disconnectAnalyser, closeAudioContext, closeSession,
         deliverTranscript] r)"

subsection \<open>startRecording and the session callbacks\<close>

text \<open>
  \<open>getUserMedia\<close> is the result of the awaited microphone request (\<open>None\<close> when it
  rejects) and \<open>connect\<close> the promise returned by \<open>ai.live.connect\<close>. \<open>onopen\<close> gets
  the nodes it creates and the id returned by the first \<open>requestAnimationFrame\<close>.
\<close>

definition startRecording :: "mediaTrack list option \<Rightarrow> sessionPromise \<Rightarrow> recorder \<Rightarrow> recorder" where
  "startRecording getUserMedia connect r =
     (let r1 = r\<lparr>calls := calls r @ [OnRecordingStart], isRecording := True,
                 finalTranscription := [], interimTranscription := [],
                 transcriptionRef := []\<rparr>
      in case getUserMedia of
           None \<Rightarrow> r1\<lparr>isRecording := False\<rparr>
         | Some stream \<Rightarrow> r1\<lparr>mediaStreamRef := Some stream, sessionPromiseRef := Some connect\<rparr>)"

definition onopen :: "audioContext \<Rightarrow> audioNode \<Rightarrow> audioNode \<Rightarrow> audioNode \<Rightarrow> nat \<Rightarrow> recorder \<Rightarrow> recorder" where
  "onopen audioCtx gain analyser processor frameId r =
     r\<lparr>audioContextRef := Some audioCtx, gainNodeRef := Some gain,
       analyserNodeRef := Some analyser, scriptProcessorRef := Some processor,
       animationFrameIdRef := Some frameId\<rparr>"

record inputTranscription =
  text' :: js_string
  isFinal :: bool

datatype liveServerMessage = LiveServerMessage (inputTranscriptionOf: "inputTranscription option")

definition onmessage :: "liveServerMessage \<Rightarrow> recorder \<Rightarrow> recorder" where
  "onmessage message r =
     (case inputTranscriptionOf message of
        None \<Rightarrow> r
      | Some t \<Rightarrow>
          if isFinal t
          then r\<lparr>transcriptionRef := transcriptionRef r @ text' t @ str '' '',
                 finalTranscription := transcriptionRef r @ text' t @ str '' '',
                 interimTranscription := []\<rparr>
          else r\<lparr>interimTranscription := text' t\<rparr>)"

text \<open>The messages of a session, handled in the order they are received.\<close>

definition receive :: "liveServerMessage list \<Rightarrow> recorder \<Rightarrow> recorder" where
  "receive messages r = foldl (\<lambda>r' m. onmessage m r') r messages"

text \<open>Reading the log: the calls a run added, and the transcripts it delivered.\<close>

definition new_calls :: "recorder \<Rightarrow> recorder \<Rightarrow> call list" where
  "new_calls r r' = drop (length (calls r)) (calls r')"

definition delivered :: "call list \<Rightarrow> js_string list" where
  "delivered cs = concat (map (\<lambda>c. case c of OnRecordingComplete t \<Rightarrow> [t] | _ \<Rightarrow> []) cs)"

definition is_release :: "call \<Rightarrow> bool" where
  "is_release c = (case c of OnRecordingStart \<Rightarrow> False | OnRecordingComplete t \<Rightarrow> False | _ \<Rightarrow> True)"

text \<open>A recorder as the component mounts it, and a session that was opened.\<close>

definition initialRecorder :: recorder where
  "initialRecorder =
     \<lparr>isRecording = False, finalTranscription = [], interimTranscription = [],
      sensitivity = 1, audioLevel = 0, sessionPromiseRef = None, audioContextRef = None,
      scriptProcessorRef = None, mediaStreamRef = None, transcriptionRef = [],
      gainNodeRef = None, analyserNodeRef = None, animationFrameIdRef = None, calls = []\<rparr>"

definition openSession :: "sessionPromise \<Rightarrow> audioContext \<Rightarrow> recorder" where
  "openSession connect audioCtx =
     onopen audioCtx (AudioNode False) (AudioNode False) (AudioNode False) 1
       (startRecording (Some [MediaTrack False]) connect initialRecorder)"

subsection \<open>A stop among the other callbacks\<close>

text \<open>
  \<open>stopRecording\<close> is suspended at \<open>await audioContextRef.current.close()\<close> and at
  \<open>await sessionPromiseRef.current\<close>, and other callbacks of the component run in
  between. The ones that touch the recorder are the effect that starts a recording when
  \<open>initialState\<close> is \<open>'recording'\<close> and \<open>isRecording\<close> is false, the rest of
  \<open>startRecording\<close> once \<open>getUserMedia\<close> has settled, \<open>onmessage\<close> and \<open>onopen\<close>.
  A schedule lists, for each suspension that a run goes through, the events handled
  during it. \<open>App\<close> passes \<open>initialState = 'recording'\<close> for as long as its state is
  \<open>RECORDING\<close>, which it leaves only in \<open>handleRecordingComplete\<close>; so the
  re-render caused by \<open>setIsRecording(false)\<close> runs the effect during the first
  suspension of every stop: that is \<open>appSchedule\<close>.

  \<open>startRecording_begin\<close> is \<open>startRecording\<close> up to its \<open>await\<close> and
  \<open>startRecording_resume\<close> is what follows it. \<open>stopRecording_sync\<close> is the part
  of a stop before its first \<open>await\<close>. The refs are read when the statement runs:
  the promise awaited is the one \<open>sessionPromiseRef\<close> holds after the first suspension,
  and the assignments of \<open>null\<close> after an \<open>await\<close> overwrite what the events stored.
\<close>

datatype initialState = PropIdle | PropRecording

definition startRecording_begin :: "recorder \<Rightarrow> recorder" where
  "startRecording_begin r =
     r\<lparr>calls := calls r @ [OnRecordingStart], isRecording := True,
       finalTranscription := [], interimTranscription := [], transcriptionRef := []\<rparr>"

definition startRecording_resume :: "mediaTrack list option \<Rightarrow> sessionPromise \<Rightarrow> recorder \<Rightarrow> recorder" where
  "startRecording_resume getUserMedia connect r =
     (case getUserMedia of
        None \<Rightarrow> r\<lparr>isRecording := False\<rparr>
      | Some stream \<Rightarrow> r\<lparr>mediaStreamRef := Some stream, sessionPromiseRef := Some connect\<rparr>)"

definition mountEffect :: "initialState \<Rightarrow> recorder \<Rightarrow> recorder" where
  "mountEffect initialState r =
     (if initialState = PropRecording \<and> \<not> isRecording r then startRecording_begin r else r)"

datatype event =
    EffectRun initialState
  | MediaSettled "mediaTrack list option" sessionPromise
  | MessageReceived liveServerMessage
  | SessionOpened audioContext audioNode audioNode audioNode nat

fun handle :: "event \<Rightarrow> recorder \<Rightarrow> recorder" where
  "handle (EffectRun initialState) r = mountEffect initialState r"
| "handle (MediaSettled getUserMedia connect) r = startRecording_resume getUserMedia connect r"
| "handle (MessageReceived message) r = onmessage message r"
| "handle (SessionOpened audioCtx gain analyser processor frameId) r =
     onopen audioCtx gain analyser processor frameId r"

definition during :: "event list \<Rightarrow> recorder \<Rightarrow> recorder" where
  "during events r = foldl (\<lambda>r' e. handle e r') r events"

definition suspend :: "event list list \<Rightarrow> recorder \<Rightarrow> event list list \<times> recorder" where
  "suspend schedule r =
     (case schedule of [] \<Rightarrow> ([], r) | events # rest \<Rightarrow> (rest, during events r))"

definition awaitContextClose :: "event list list \<Rightarrow> recorder \<Rightarrow> event list list \<times> recorder outcome" where
  "awaitContextClose schedule r =
     (case audioContextRef r of
        None \<Rightarrow> (schedule, Normal r)
      | Some ctx \<Rightarrow>
          if contextState ctx = Closed then (schedule, Normal r)
          else (let resumed = suspend schedule (r\<lparr>calls := calls r @ [ContextClose]\<rparr>)
                in (fst resumed,
                    if closeRejects ctx then Abrupt (snd resumed)
                    else Normal ((snd resumed)\<lparr>audioContextRef := None\<rparr>))))"

definition awaitSession :: "event list list \<Rightarrow> recorder \<Rightarrow> recorder outcome" where
  "awaitSession schedule r =
     (case sessionPromiseRef r of
        None \<Rightarrow> Normal r
      | Some promise \<Rightarrow>
          (let r' = snd (suspend schedule r)
           in case promise of
                Rejected \<Rightarrow> Abrupt r'
              | Resolved session \<Rightarrow>
                  if closeThrows session then Abrupt (r'\<lparr>calls := calls r' @ [SessionClose]\<rparr>)
                  else Normal (r'\<lparr>calls := calls r' @ [SessionClose], sessionPromiseRef := None\<rparr>)))"

definition stopRecording_sync :: "recorder \<Rightarrow> recorder outcome" where
  "stopRecording_sync r =
     run_steps [resetFlags, cancelVisualization, stopMediaTracks, disconnectProcessor,
       disconnectGain, disconnectAnalyser] r"

definition stopRecording_interleaved :: "event list list \<Rightarrow> recorder \<Rightarrow> recorder outcome" where
  "stopRecording_interleaved schedule r =
     (if \<not> isRecording r then Normal r
      else
        case stopRecording_sync r of
          Abrupt r1 \<Rightarrow> Abrupt r1
        | Normal r1 \<Rightarrow>
            (case snd (awaitContextClose schedule r1) of
               Abrupt r2 \<Rightarrow> Abrupt r2
             | Normal r2 \<Rightarrow>
                 (case awaitSession (fst (awaitContextClose schedule r1)) r2 of
                    Abrupt r3 \<Rightarrow> Abrupt r3
                  | Normal r3 \<Rightarrow> deliverTranscript r3)))"


subsection \<open>What a stop is expected to do\<close>

text \<open>
  The release calls due for the resources a recorder holds, in the order of the source,
  and the condition that none of them throws. \<open>follows_plan\<close> relates a run of steps
  to such a plan.
\<close>

definition frame_calls :: "recorder \<Rightarrow> call list" where
  "frame_calls r =
     (case animationFrameIdRef r of None \<Rightarrow> [] | Some n \<Rightarrow> if n = 0 then [] else [CancelAnimationFrame n])"

definition track_calls :: "recorder \<Rightarrow> call list" where
  "track_calls r =
     (case mediaStreamRef r of None \<Rightarrow> [] | Some tracks \<Rightarrow> map TrackStop [0..<length tracks])"

definition processor_calls :: "recorder \<Rightarrow> call list" where
  "processor_calls r = (case scriptProcessorRef r of None \<Rightarrow> [] | Some n \<Rightarrow> [ProcessorDisconnect])"

definition gain_calls :: "recorder \<Rightarrow> call list" where
  "gain_calls r = (case gainNodeRef r of None \<Rightarrow> [] | Some n \<Rightarrow> [GainDisconnect])"

definition analyser_calls :: "recorder \<Rightarrow> call list" where
  "analyser_calls r = (case analyserNodeRef r of None \<Rightarrow> [] | Some n \<Rightarrow> [AnalyserDisconnect])"

definition context_calls :: "recorder \<Rightarrow> call list" where
  "context_calls r =
     (case audioContextRef r of None \<Rightarrow> []
      | Some ctx \<Rightarrow> if contextState ctx = Closed then [] else [ContextClose])"

definition session_calls :: "recorder \<Rightarrow> call list" where
  "session_calls r =
     (case sessionPromiseRef r of None \<Rightarrow> [] | Some Rejected \<Rightarrow> []
      | Some (Resolved session) \<Rightarrow> [SessionClose])"

definition planned_release :: "recorder \<Rightarrow> call list" where
  "planned_release r =
     frame_calls r @ track_calls r @ processor_calls r @ gain_calls r @ analyser_calls r
     @ context_calls r @ session_calls r"

definition tracks_ok :: "recorder \<Rightarrow> bool" where
  "tracks_ok r =
     (case mediaStreamRef r of None \<Rightarrow> True | Some tracks \<Rightarrow> list_all (\<lambda>t. \<not> stopThrows t) tracks)"

definition processor_ok :: "recorder \<Rightarrow> bool" where
  "processor_ok r = (case scriptProcessorRef r of None \<Rightarrow> True | Some n \<Rightarrow> \<not> disconnectThrows n)"

definition gain_ok :: "recorder \<Rightarrow> bool" where
  "gain_ok r = (case gainNodeRef r of None \<Rightarrow> True | Some n \<Rightarrow> \<not> disconnectThrows n)"

definition analyser_ok :: "recorder \<Rightarrow> bool" where
  "analyser_ok r = (case analyserNodeRef r of None \<Rightarrow> True | Some n \<Rightarrow> \<not> disconnectThrows n)"

definition context_ok :: "recorder \<Rightarrow> bool" where
  "context_ok r =
     (case audioContextRef r of None \<Rightarrow> True
      | Some ctx \<Rightarrow> contextState ctx = Closed \<or> \<not> closeRejects ctx)"

definition session_ok :: "recorder \<Rightarrow> bool" where
  "session_ok r =
     (case sessionPromiseRef r of None \<Rightarrow> True | Some Rejected \<Rightarrow> False
      | Some (Resolved session) \<Rightarrow> \<not> closeThrows session)"

definition releasable :: "recorder \<Rightarrow> bool" where
  "releasable r \<longleftrightarrow>
     tracks_ok r \<and> processor_ok r \<and> gain_ok r \<and> analyser_ok r \<and> context_ok r \<and> session_ok r"

definition follows_plan ::
  "(recorder \<Rightarrow> recorder outcome) \<Rightarrow> (recorder \<Rightarrow> call list) \<Rightarrow> (recorder \<Rightarrow> bool) \<Rightarrow> bool" where
  "follows_plan run plan ok \<longleftrightarrow>
     (\<forall>r. isRecording (state_of (run r)) = isRecording r
        \<and> (ok r \<longrightarrow> run r = Normal (state_of (run r))
              \<and> calls (state_of (run r)) =
                  calls r @ plan r @ [OnRecordingComplete (trim (transcriptionRef r))])
        \<and> (\<not> ok r \<longrightarrow> run r = Abrupt (state_of (run r))
              \<and> (\<exists>c. calls (state_of (run r)) = calls r @ c \<and> prefix c (plan r))))"

text \<open>
  The same for the synchronous part of a stop: the calls due before the first
  \<open>await\<close> and the condition that none of them throws. \<open>keeps\<close> lists what that
  part leaves alone, \<open>runs_plan\<close> relates a run of steps to a plan, and
  \<open>starts_only\<close> holds of a log that records nothing but \<open>onRecordingStart\<close>.
\<close>

definition keeps :: "recorder \<Rightarrow> recorder \<Rightarrow> bool" where
  "keeps r r' \<longleftrightarrow>
     isRecording r' = isRecording r \<and> transcriptionRef r' = transcriptionRef r
     \<and> audioContextRef r' = audioContextRef r \<and> sessionPromiseRef r' = sessionPromiseRef r"

definition runs_plan ::
  "(recorder \<Rightarrow> recorder outcome) \<Rightarrow> (recorder \<Rightarrow> call list) \<Rightarrow> (recorder \<Rightarrow> bool) \<Rightarrow> bool" where
  "runs_plan run plan ok \<longleftrightarrow>
     (\<forall>r. keeps r (state_of (run r))
        \<and> (ok r \<longrightarrow> run r = Normal (state_of (run r))
              \<and> calls (state_of (run r)) = calls r @ plan r)
        \<and> (\<not> ok r \<longrightarrow> run r = Abrupt (state_of (run r))
              \<and> (\<exists>c. calls (state_of (run r)) = calls r @ c \<and> prefix c (plan r))))"

definition sync_calls :: "recorder \<Rightarrow> call list" where
  "sync_calls r =
     frame_calls r @ track_calls r @ processor_calls r @ gain_calls r @ analyser_calls r"

definition sync_ok :: "recorder \<Rightarrow> bool" where
  "sync_ok r \<longleftrightarrow> tracks_ok r \<and> processor_ok r \<and> gain_ok r \<and> analyser_ok r"

definition starts_only :: "call list \<Rightarrow> bool" where
  "starts_only c \<longleftrightarrow> set c \<subseteq> {OnRecordingStart}"

text \<open>
  \<open>release_rank\<close> numbers the calls in the order \<open>stopRecording\<close> makes them,
  \<open>final_fragments\<close> lists the texts of the final transcription messages in receipt
  order, and \<open>signed16\<close> is the two's-complement reading of an integer modulo \<open>2 ^ 16\<close>.
\<close>

fun release_rank :: "call \<Rightarrow> nat" where
  "release_rank OnRecordingStart = 0"
| "release_rank (CancelAnimationFrame n) = 1"
| "release_rank (TrackStop i) = 2"
| "release_rank ProcessorDisconnect = 3"
| "release_rank GainDisconnect = 4"
| "release_rank AnalyserDisconnect = 5"
| "release_rank ContextClose = 6"
| "release_rank SessionClose = 7"
| "release_rank (OnRecordingComplete t) = 8"


definition signed16 :: "int \<Rightarrow> int" where
  "signed16 n = (n + 32768) mod 65536 - 32768"


subsection \<open>Sessions used as examples\<close>

text \<open>
  An opened session whose releases all succeed, one whose connection was refused, one whose
  audio context refuses to close, the two kinds of transcription message, and a session
  that has received two final fragments.
\<close>

definition goodSession :: recorder where
  "goodSession = openSession (Resolved (LiveSession False)) (AudioContext Running False)"

definition finalMessage :: "js_string \<Rightarrow> liveServerMessage" where
  "finalMessage t = LiveServerMessage (Some \<lparr>text' = t, isFinal = True\<rparr>)"

definition interimMessage :: "js_string \<Rightarrow> liveServerMessage" where
  "interimMessage t = LiveServerMessage (Some \<lparr>text' = t, isFinal = False\<rparr>)"






section \<open>types.ts\<close>

datatype AppState = IDLE | RECORDING | ANALYZING | VIEWING

datatype AspectRatio = Ratio_16_9 | Ratio_1_1 | Ratio_9_16

text \<open>
  The fields of a \<open>DreamEntry\<close> carry a prime, which keeps the source's names free for
  the parameters of the functions below. \<open>isFavorite\<close> is optional in the interface:
  \<open>None\<close> is \<open>undefined\<close>.
\<close>

record DreamEntry =
  id' :: js_string
  date' :: js_string
  transcription' :: js_string
  imageUrl' :: js_string
  interpretation' :: js_string
  isFavorite' :: "bool option"

definition truthy :: "bool option \<Rightarrow> bool" where
  "truthy b = (b = Some True)"


section \<open>The platform and the remote service\<close>

text \<open>
  What the browser and the hosted model answer is not code of the repository, so it is a
  parameter of every function below. \<open>JSON_parse\<close> throws a SyntaxError on text that is
  not JSON; its result is taken at the type the source declares for it. \<open>getTime\<close> is
  \<open>new Date(s).getTime()\<close>, with \<open>None\<close> for NaN (a string that is not a date).
  \<open>generateImages\<close> answers with the image bytes of \<open>response.generatedImages\<close>
  (\<open>None\<close> when the field is absent), \<open>generateContent\<close> with \<open>response.text\<close>.
\<close>

datatype exn = SyntaxError | QuotaExceededError | ServiceError | Error string

record platform =
  JSON_parse :: "js_string \<Rightarrow> exn + DreamEntry list"
  JSON_stringify :: "DreamEntry list \<Rightarrow> js_string"
  getTime :: "js_string \<Rightarrow> int option"

datatype request = GenerateImages js_string AspectRatio | GenerateContent js_string

record remote =
  generateImages :: "js_string \<Rightarrow> AspectRatio \<Rightarrow> js_string list option promise"
  generateContent :: "js_string \<Rightarrow> js_string promise"
  Date_now_toString :: js_string
  Date_toISOString :: js_string

text \<open>
  \<open>localStorage\<close> maps keys to strings. \<open>getItem\<close> and \<open>removeItem\<close> always
  return; \<open>setItem\<close> throws a QuotaExceededError when the entry does not fit in the
  room the origin has left.
\<close>

record localStorage =
  items :: "js_string \<Rightarrow> js_string option"
  quota :: nat

definition getItem :: "js_string \<Rightarrow> localStorage \<Rightarrow> js_string option" where
  "getItem k ls = items ls k"

definition removeItem :: "js_string \<Rightarrow> localStorage \<Rightarrow> localStorage" where
  "removeItem k ls = ls\<lparr>items := (items ls)(k := None)\<rparr>"

definition setItem :: "js_string \<Rightarrow> js_string \<Rightarrow> localStorage \<Rightarrow> exn + localStorage" where
  "setItem k v ls =
     (if quota ls < length k + length v then Inl QuotaExceededError
      else Inr (ls\<lparr>items := (items ls)(k \<mapsto> v)\<rparr>))"


section \<open>App.tsx: the local storage service\<close>

definition DREAMS_KEY :: js_string where
  "DREAMS_KEY = str ''lucid_ai_dreams''"

text \<open>The body of the \<open>try\<close> of \<open>getSavedDreams\<close>, then the function with its \<open>catch\<close>.\<close>

definition getSavedDreams_try :: "platform \<Rightarrow> localStorage \<Rightarrow> exn + DreamEntry list" where
  "getSavedDreams_try P ls =
     (case getItem DREAMS_KEY ls of
        None \<Rightarrow> Inr []
      | Some savedDreams \<Rightarrow> if savedDreams = [] then Inr [] else JSON_parse P savedDreams)"

definition getSavedDreams :: "platform \<Rightarrow> localStorage \<Rightarrow> (exn + DreamEntry list) \<times> localStorage" where
  "getSavedDreams P ls =
     (case getSavedDreams_try P ls of
        Inr dreams \<Rightarrow> (Inr dreams, ls)
      | Inl error \<Rightarrow> (Inr [], removeItem DREAMS_KEY ls))"

definition saveDreams :: "platform \<Rightarrow> DreamEntry list \<Rightarrow> localStorage \<Rightarrow> localStorage" where
  "saveDreams P dreams ls =
     (case setItem DREAMS_KEY (JSON_stringify P dreams) ls of
        Inr ls' \<Rightarrow> ls'
      | Inl error \<Rightarrow> ls)"

definition saveNewDream :: "platform \<Rightarrow> DreamEntry \<Rightarrow> localStorage \<Rightarrow> localStorage" where
  "saveNewDream P newDream ls =
     (case getSavedDreams P ls of
        (Inr existingDreams, ls') \<Rightarrow> saveDreams P (newDream # existingDreams) ls'
      | (Inl error, ls') \<Rightarrow> ls')"


section \<open>services/geminiService.ts\<close>

text \<open>
  Each function returns the requests it sent with its result; \<open>Inl\<close> is a rejected
  promise. \<open>generateDreamAnalysis\<close> starts both requests before it awaits either.
\<close>

definition quoted :: "js_string \<Rightarrow> js_string" where
  "quoted s = [0x22] @ s @ [0x22]"

definition imagePrompt :: "js_string \<Rightarrow> js_string \<Rightarrow> js_string \<Rightarrow> js_string" where
  "imagePrompt transcription style customPrompt =
     (let prompt = str ''A '' @ style
            @ str '', high-resolution, emotionally evocative painting representing the core essence of this dream: ''
            @ quoted transcription
      in if trim customPrompt \<noteq> []
         then prompt @ str ''. Also, incorporate the following creative direction: ''
                @ quoted (trim customPrompt)
         else prompt)"

definition generateDreamImage ::
  "remote \<Rightarrow> js_string \<Rightarrow> js_string \<Rightarrow> AspectRatio \<Rightarrow> js_string \<Rightarrow> request list \<times> (exn + js_string)" where
  "generateDreamImage R transcription style aspectRatio customPrompt =
     (let prompt = imagePrompt transcription style customPrompt
      in ([GenerateImages prompt aspectRatio],
          case generateImages R prompt aspectRatio of
            Rejected \<Rightarrow> Inl ServiceError
          | Resolved generatedImages \<Rightarrow>
              (case generatedImages of
                 Some (base64ImageBytes # rest) \<Rightarrow>
                   Inr (str ''data:image/jpeg;base64,'' @ base64ImageBytes)
               | _ \<Rightarrow> Inl (Error ''Image generation failed or returned no images.''))))"

definition interpretDream :: "remote \<Rightarrow> js_string \<Rightarrow> request list \<times> (exn + js_string)" where
  "interpretDream R transcription =
     ([GenerateContent transcription],
      case generateContent R transcription of
        Rejected \<Rightarrow> Inl ServiceError
      | Resolved text \<Rightarrow> Inr text)"

definition generateDreamAnalysis ::
  "remote \<Rightarrow> js_string \<Rightarrow> js_string \<Rightarrow> AspectRatio \<Rightarrow> js_string
     \<Rightarrow> request list \<times> (exn + js_string \<times> js_string)" where
  "generateDreamAnalysis R transcription style aspectRatio customPrompt =
     (let image = generateDreamImage R transcription style aspectRatio customPrompt;
          reading = interpretDream R transcription
      in (fst image @ fst reading,
          case (snd image, snd reading) of
            (Inr imageUrl, Inr interpretation) \<Rightarrow> Inr (imageUrl, interpretation)
          | _ \<Rightarrow> Inl (Error ''Failed to generate dream analysis.'')))"


section \<open>App.tsx: the component\<close>

text \<open>
  The state of \<open>App\<close>, together with the browser's \<open>localStorage\<close> and the log of the
  requests sent to the remote service.
\<close>

record app =
  appState :: AppState
  currentDream :: "DreamEntry option"
  allDreams :: "DreamEntry list"
  error :: "js_string option"
  artStyle :: js_string
  aspectRatio :: AspectRatio
  customImagePrompt :: js_string
  storage :: localStorage
  sent :: "request list"

text \<open>The effect that runs once on mount.\<close>

definition loadDreams :: "platform \<Rightarrow> app \<Rightarrow> exn + app" where
  "loadDreams P a =
     (case getSavedDreams P (storage a) of
        (Inr dreams, ls) \<Rightarrow> Inr (a\<lparr>allDreams := dreams, storage := ls\<rparr>)
      | (Inl e, ls) \<Rightarrow> Inl e)"

definition handleRecordingComplete :: "platform \<Rightarrow> remote \<Rightarrow> js_string \<Rightarrow> app \<Rightarrow> app" where
  "handleRecordingComplete P R transcription a =
     (if trim transcription = []
      then a\<lparr>error := Some (str ''The recording was empty. Please try again.''),
             appState := IDLE\<rparr>
      else
        (let a1 = a\<lparr>appState := ANALYZING, error := None\<rparr>;
             analysis = generateDreamAnalysis R transcription (artStyle a) (aspectRatio a)
                          (customImagePrompt a);
             a2 = a1\<lparr>sent := sent a1 @ fst analysis\<rparr>
         in case snd analysis of
              Inr (imageUrl, interpretation) \<Rightarrow>
                (let newDream = \<lparr>id' = Date_now_toString R, date' = Date_toISOString R,
                                 transcription' = transcription, imageUrl' = imageUrl,
                                 interpretation' = interpretation, isFavorite' = Some False\<rparr>
                 in a2\<lparr>storage := saveNewDream P newDream (storage a2),
                        allDreams := newDream # allDreams a2,
                        currentDream := Some newDream,
                        appState := VIEWING\<rparr>)
            | Inl err \<Rightarrow>
                a2\<lparr>error := Some (str ''There was an error analyzing your dream. Please check your API key and try again.''),
                   appState := IDLE\<rparr>))"

definition handleUpdateDream :: "platform \<Rightarrow> DreamEntry \<Rightarrow> app \<Rightarrow> app" where
  "handleUpdateDream P updatedDream a =
     (let updatedDreams = map (\<lambda>d. if id' d = id' updatedDream then updatedDream else d) (allDreams a)
      in a\<lparr>currentDream := Some updatedDream, allDreams := updatedDreams,
           storage := saveDreams P updatedDreams (storage a)\<rparr>)"

definition handleToggleFavorite :: "platform \<Rightarrow> js_string \<Rightarrow> app \<Rightarrow> app" where
  "handleToggleFavorite P dreamId a =
     (let updatedDreams =
            map (\<lambda>d. if id' d = dreamId then d\<lparr>isFavorite' := Some (\<not> truthy (isFavorite' d))\<rparr> else d)
              (allDreams a)
      in a\<lparr>allDreams := updatedDreams, storage := saveDreams P updatedDreams (storage a)\<rparr>)"

text \<open>
  \<open>compareFn\<close> is the comparator given to \<open>sort\<close>; \<open>None\<close> is NaN, the difference of
  two times one of which is NaN. \<open>Array.prototype.sort\<close> reads a NaN as 0 and is stable;
  it is modelled by a stable insertion sort, which every conforming sort agrees with when
  the comparator is consistent.
\<close>

definition compareFn :: "platform \<Rightarrow> DreamEntry \<Rightarrow> DreamEntry \<Rightarrow> int option" where
  "compareFn P a b =
     (if truthy (isFavorite' a) \<and> \<not> truthy (isFavorite' b) then Some (- 1)
      else if \<not> truthy (isFavorite' a) \<and> truthy (isFavorite' b) then Some 1
      else (case (getTime P (date' b), getTime P (date' a)) of
              (Some tb, Some ta) \<Rightarrow> Some (tb - ta)
            | _ \<Rightarrow> None))"

definition sortCompare :: "('a \<Rightarrow> 'a \<Rightarrow> int option) \<Rightarrow> 'a \<Rightarrow> 'a \<Rightarrow> int" where
  "sortCompare comparefn x y = (case comparefn x y of None \<Rightarrow> 0 | Some v \<Rightarrow> v)"

fun insert_sorted :: "('a \<Rightarrow> 'a \<Rightarrow> int option) \<Rightarrow> 'a \<Rightarrow> 'a list \<Rightarrow> 'a list" where
  "insert_sorted comparefn x [] = [x]"
| "insert_sorted comparefn x (y # ys) =
     (if sortCompare comparefn x y \<le> 0 then x # y # ys
      else y # insert_sorted comparefn x ys)"

definition array_sort :: "('a \<Rightarrow> 'a \<Rightarrow> int option) \<Rightarrow> 'a list \<Rightarrow> 'a list" where
  "array_sort comparefn xs = foldr (insert_sorted comparefn) xs []"

definition sortedDreams :: "platform \<Rightarrow> app \<Rightarrow> DreamEntry list" where
  "sortedDreams P a = array_sort (compareFn P) (allDreams a)"


text \<open>
  The order the history is expected to have: \<open>x\<close> may stand before \<open>y\<close> when
  \<open>x\<close> is a favorite and \<open>y\<close> is not, or when both have the same status and \<open>x\<close> is
  at least as new. \<open>dated\<close> holds of an entry whose date parses to a time.
\<close>

definition history_before :: "platform \<Rightarrow> DreamEntry \<Rightarrow> DreamEntry \<Rightarrow> bool" where
  "history_before P x y \<longleftrightarrow>
     (truthy (isFavorite' x) \<and> \<not> truthy (isFavorite' y))
     \<or> (truthy (isFavorite' x) = truthy (isFavorite' y)
        \<and> (case (getTime P (date' x), getTime P (date' y)) of
             (Some tx, Some ty) \<Rightarrow> ty \<le> tx
           | _ \<Rightarrow> False))"

definition dated :: "platform \<Rightarrow> DreamEntry \<Rightarrow> bool" where
  "dated P d = (getTime P (date' d) \<noteq> None)"


section \<open>components/DreamAnalysis.tsx\<close>

text \<open>\<open>dream\<close> is the prop of the view and \<open>onUpdateDream\<close> is \<open>handleUpdateDream\<close>.\<close>

definition DreamAnalysis_handleToggleFavorite :: "platform \<Rightarrow> DreamEntry \<Rightarrow> app \<Rightarrow> app" where
  "DreamAnalysis_handleToggleFavorite P dream a =
     handleUpdateDream P (dream\<lparr>isFavorite' := Some (\<not> truthy (isFavorite' dream))\<rparr>) a"


section \<open>Example values\<close>

text \<open>
  A platform with a toy serialisation (the ids, each followed by \<open>+\<close> or \<open>-\<close> for
  the flag), a remote service that answers, one that returns no image, stores, and an
  application state with two entries.
\<close>

definition examplePlatform :: platform where
  "examplePlatform =
     \<lparr>JSON_parse = (\<lambda>s. if s = str ''[]'' then Inr [] else Inl SyntaxError),
      JSON_stringify =
        (\<lambda>dreams. concat (map (\<lambda>d. id' d @ (if truthy (isFavorite' d) then str ''+'' else str ''-'')) dreams)),
      getTime =
        (\<lambda>s. if s = str ''2024-01-01T07:00:00.000Z'' then Some 1704092400000
             else if s = str ''2024-01-02T07:00:00.000Z'' then Some 1704178800000
             else None)\<rparr>"

definition exampleRemote :: remote where
  "exampleRemote =
     \<lparr>generateImages = (\<lambda>prompt ratio. Resolved (Some [str ''QUJD''])),
      generateContent = (\<lambda>contents. Resolved (str ''**Core Emotional Theme:** awe'')),
      Date_now_toString = str ''1704178800000'',
      Date_toISOString = str ''2024-01-02T07:00:00.000Z''\<rparr>"

definition noImageRemote :: remote where
  "noImageRemote = exampleRemote\<lparr>generateImages := (\<lambda>prompt ratio. Resolved (Some []))\<rparr>"

definition emptyStorage :: localStorage where
  "emptyStorage = \<lparr>items = (\<lambda>k. None), quota = 5000000\<rparr>"

definition corruptStorage :: localStorage where
  "corruptStorage = emptyStorage\<lparr>items := (items emptyStorage)(DREAMS_KEY \<mapsto> str ''{oops'')\<rparr>"

definition initialApp :: app where
  "initialApp =
     \<lparr>appState = IDLE, currentDream = None, allDreams = [], error = None,
      artStyle = str ''surrealist, dream-like'', aspectRatio = Ratio_16_9,
      customImagePrompt = [], storage = emptyStorage, sent = []\<rparr>"

definition dream1 :: DreamEntry where
  "dream1 =
     \<lparr>id' = str ''1704092400000'', date' = str ''2024-01-01T07:00:00.000Z'',
      transcription' = str ''I was flying'', imageUrl' = str ''data:image/jpeg;base64,QUJD'',
      interpretation' = str ''**Core Emotional Theme:** awe'', isFavorite' = Some False\<rparr>"

definition dream2 :: DreamEntry where
  "dream2 =
     \<lparr>id' = str ''1704178800000'', date' = str ''2024-01-02T07:00:00.000Z'',
      transcription' = str ''A city of glass'', imageUrl' = str ''data:image/jpeg;base64,REVG'',
      interpretation' = str ''**Core Emotional Theme:** wonder'', isFavorite' = None\<rparr>"

definition journalApp :: app where
  "journalApp =
     initialApp\<lparr>allDreams := [dream2, dream1],
       storage := emptyStorage\<lparr>items := (items emptyStorage)
         (DREAMS_KEY \<mapsto> JSON_stringify examplePlatform [dream2, dream1])\<rparr>\<rparr>"

definition fullStorageApp :: app where
  "fullStorageApp = journalApp\<lparr>storage := (storage journalApp)\<lparr>quota := 0\<rparr>\<rparr>"

definition dream3 :: DreamEntry where
  "dream3 = dream1\<lparr>id' := str ''1704092400001'', isFavorite' := Some True\<rparr>"

definition sortApp :: app where
  "sortApp = initialApp\<lparr>allDreams := [dream1, dream2, dream3]\<rparr>"


section \<open>Properties of the recorder\<close>

subsection \<open>Each step of stopRecording against its plan\<close>

lemma upt_shift: "[i..<i + length (t # ts)] = i # [Suc i..<Suc i + length ts]"
  by (simp add: upt_conv_Cons del: upt_Suc)

lemma forEach_stop_ok:
  "list_all (\<lambda>t. \<not> stopThrows t) ts \<Longrightarrow> forEach_stop i ts = (map TrackStop [i..<i + length ts], True)"
proof (induction ts arbitrary: i)
  case Nil
  then show ?case by simp
next
  case (Cons t ts)
  then have "forEach_stop (Suc i) ts = (map TrackStop [Suc i..<Suc i + length ts], True)"
    by simp
  with Cons.prems show ?case
    unfolding upt_shift by simp
qed

lemma forEach_stop_prefix:
  "prefix (fst (forEach_stop i ts)) (map TrackStop [i..<i + length ts])"
proof (induction ts arbitrary: i)
  case Nil
  then show ?case by simp
next
  case (Cons t ts)
  have "prefix (fst (forEach_stop (Suc i) ts)) (map TrackStop [Suc i..<Suc i + length ts])"
    by (rule Cons.IH)
  then show ?case
    unfolding upt_shift by simp
qed

lemma forEach_stop_snd:
  "snd (forEach_stop i ts) = list_all (\<lambda>t. \<not> stopThrows t) ts"
  by (induction ts arbitrary: i) auto

lemma follows_plan_deliver: "follows_plan (run_steps [deliverTranscript]) (\<lambda>r. []) (\<lambda>r. True)"
  by (simp add: follows_plan_def deliverTranscript_def)

lemma follows_plan_step:
  assumes tail: "follows_plan (run_steps fs) plan ok"
    and good: "\<And>r. okf r \<Longrightarrow> f r = Normal (aft r)"
    and bad: "\<And>r. \<not> okf r \<Longrightarrow> \<exists>c. f r = Abrupt (r\<lparr>calls := calls r @ c\<rparr>) \<and> prefix c (planf r)"
    and aft_calls: "\<And>r. calls (aft r) = calls r @ planf r"
    and aft_rec: "\<And>r. isRecording (aft r) = isRecording r"
    and aft_tr: "\<And>r. transcriptionRef (aft r) = transcriptionRef r"
    and aft_plan: "\<And>r. plan (aft r) = plan r"
    and aft_ok: "\<And>r. ok (aft r) = ok r"
  shows "follows_plan (run_steps (f # fs)) (\<lambda>r. planf r @ plan r) (\<lambda>r. okf r \<and> ok r)"
  unfolding follows_plan_def
proof (intro allI)
  fix r
  let ?goal = "isRecording (state_of (run_steps (f # fs) r)) = isRecording r
        \<and> (okf r \<and> ok r \<longrightarrow> run_steps (f # fs) r = Normal (state_of (run_steps (f # fs) r))
              \<and> calls (state_of (run_steps (f # fs) r)) =
                  calls r @ (planf r @ plan r) @ [OnRecordingComplete (trim (transcriptionRef r))])
        \<and> (\<not> (okf r \<and> ok r) \<longrightarrow> run_steps (f # fs) r = Abrupt (state_of (run_steps (f # fs) r))
              \<and> (\<exists>c. calls (state_of (run_steps (f # fs) r)) = calls r @ c \<and> prefix c (planf r @ plan r)))"
  show ?goal
  proof (cases "okf r")
    case True
    then have run: "run_steps (f # fs) r = run_steps fs (aft r)"
      by (simp add: good)
    from tail have t: "isRecording (state_of (run_steps fs (aft r))) = isRecording (aft r)
        \<and> (ok (aft r) \<longrightarrow> run_steps fs (aft r) = Normal (state_of (run_steps fs (aft r)))
              \<and> calls (state_of (run_steps fs (aft r))) =
                  calls (aft r) @ plan (aft r) @ [OnRecordingComplete (trim (transcriptionRef (aft r)))])
        \<and> (\<not> ok (aft r) \<longrightarrow> run_steps fs (aft r) = Abrupt (state_of (run_steps fs (aft r)))
              \<and> (\<exists>c. calls (state_of (run_steps fs (aft r))) = calls (aft r) @ c \<and> prefix c (plan (aft r))))"
      unfolding follows_plan_def by blast
    show ?thesis
    proof (cases "ok r")
      case ok: True
      with t True show ?thesis
        unfolding run by (simp add: aft_calls aft_rec aft_tr aft_plan aft_ok)
    next
      case nok: False
      with t obtain c where c: "run_steps fs (aft r) = Abrupt (state_of (run_steps fs (aft r)))"
        "calls (state_of (run_steps fs (aft r))) = calls (aft r) @ c" "prefix c (plan r)"
        by (auto simp: aft_ok aft_plan)
      have "calls (state_of (run_steps fs (aft r))) = calls r @ (planf r @ c) \<and> prefix (planf r @ c) (planf r @ plan r)"
        using c by (simp add: aft_calls)
      then have "\<exists>c'. calls (state_of (run_steps fs (aft r))) = calls r @ c' \<and> prefix c' (planf r @ plan r)"
        by blast
      with t nok c(1) show ?thesis
        unfolding run by (simp add: aft_rec)
    qed
  next
    case False
    from bad[OF False] obtain c where c: "f r = Abrupt (r\<lparr>calls := calls r @ c\<rparr>)" "prefix c (planf r)"
      by blast
    have "calls (r\<lparr>calls := calls r @ c\<rparr>) = calls r @ c \<and> prefix c (planf r @ plan r)"
      using c(2) by (simp add: prefix_prefix)
    then have "\<exists>c'. calls (r\<lparr>calls := calls r @ c\<rparr>) = calls r @ c' \<and> prefix c' (planf r @ plan r)"
      by blast
    moreover have "run_steps (f # fs) r = Abrupt (r\<lparr>calls := calls r @ c\<rparr>)"
      by (simp add: c(1))
    ultimately show ?thesis
      using False by (simp del: run_steps.simps)
  qed
qed


lemma cancelVisualization_good:
  "cancelVisualization r =
     Normal (r\<lparr>calls := calls r @ frame_calls r,
              animationFrameIdRef := (if animationFrameIdRef r = Some 0 then Some 0 else None)\<rparr>)"
  by (cases "animationFrameIdRef r") (simp_all add: cancelVisualization_def frame_calls_def)

lemma stopMediaTracks_good:
  "tracks_ok r \<Longrightarrow>
   stopMediaTracks r = Normal (r\<lparr>calls := calls r @ track_calls r, mediaStreamRef := None\<rparr>)"
  by (cases "mediaStreamRef r") (simp_all add: stopMediaTracks_def tracks_ok_def track_calls_def forEach_stop_ok)

lemma stopMediaTracks_bad:
  "\<not> tracks_ok r \<Longrightarrow>
   \<exists>c. stopMediaTracks r = Abrupt (r\<lparr>calls := calls r @ c\<rparr>) \<and> prefix c (track_calls r)"
  using forEach_stop_prefix[of 0]
  by (cases "mediaStreamRef r")
    (auto simp: stopMediaTracks_def tracks_ok_def track_calls_def forEach_stop_snd)

lemma disconnectProcessor_good:
  "processor_ok r \<Longrightarrow>
   disconnectProcessor r = Normal (r\<lparr>calls := calls r @ processor_calls r, scriptProcessorRef := None\<rparr>)"
  by (cases "scriptProcessorRef r") (simp_all add: disconnectProcessor_def processor_ok_def processor_calls_def)

lemma disconnectProcessor_bad:
  "\<not> processor_ok r \<Longrightarrow>
   \<exists>c. disconnectProcessor r = Abrupt (r\<lparr>calls := calls r @ c\<rparr>) \<and> prefix c (processor_calls r)"
proof -
  assume "\<not> processor_ok r"
  then have "disconnectProcessor r = Abrupt (r\<lparr>calls := calls r @ processor_calls r\<rparr>)"
    by (cases "scriptProcessorRef r") (auto simp: disconnectProcessor_def processor_ok_def processor_calls_def)
  then show ?thesis
    by (intro exI[of _ "processor_calls r"]) simp
qed

lemma disconnectGain_good:
  "gain_ok r \<Longrightarrow>
   disconnectGain r = Normal (r\<lparr>calls := calls r @ gain_calls r, gainNodeRef := None\<rparr>)"
  by (cases "gainNodeRef r") (simp_all add: disconnectGain_def gain_ok_def gain_calls_def)

lemma disconnectGain_bad:
  "\<not> gain_ok r \<Longrightarrow>
   \<exists>c. disconnectGain r = Abrupt (r\<lparr>calls := calls r @ c\<rparr>) \<and> prefix c (gain_calls r)"
proof -
  assume "\<not> gain_ok r"
  then have "disconnectGain r = Abrupt (r\<lparr>calls := calls r @ gain_calls r\<rparr>)"
    by (cases "gainNodeRef r") (auto simp: disconnectGain_def gain_ok_def gain_calls_def)
  then show ?thesis
    by (intro exI[of _ "gain_calls r"]) simp
qed

lemma disconnectAnalyser_good:
  "analyser_ok r \<Longrightarrow>
   disconnectAnalyser r = Normal (r\<lparr>calls := calls r @ analyser_calls r, analyserNodeRef := None\<rparr>)"
  by (cases "analyserNodeRef r") (simp_all add: disconnectAnalyser_def analyser_ok_def analyser_calls_def)

lemma disconnectAnalyser_bad:
  "\<not> analyser_ok r \<Longrightarrow>
   \<exists>c. disconnectAnalyser r = Abrupt (r\<lparr>calls := calls r @ c\<rparr>) \<and> prefix c (analyser_calls r)"
proof -
  assume "\<not> analyser_ok r"
  then have "disconnectAnalyser r = Abrupt (r\<lparr>calls := calls r @ analyser_calls r\<rparr>)"
    by (cases "analyserNodeRef r") (auto simp: disconnectAnalyser_def analyser_ok_def analyser_calls_def)
  then show ?thesis
    by (intro exI[of _ "analyser_calls r"]) simp
qed

lemma closeAudioContext_good:
  "context_ok r \<Longrightarrow>
   closeAudioContext r =
     Normal (r\<lparr>calls := calls r @ context_calls r,
              audioContextRef := (if context_calls r = [] then audioContextRef r else None)\<rparr>)"
  by (cases "audioContextRef r") (auto simp: closeAudioContext_def context_ok_def context_calls_def)

lemma closeAudioContext_bad:
  "\<not> context_ok r \<Longrightarrow>
   \<exists>c. closeAudioContext r = Abrupt (r\<lparr>calls := calls r @ c\<rparr>) \<and> prefix c (context_calls r)"
proof -
  assume "\<not> context_ok r"
  then have "closeAudioContext r = Abrupt (r\<lparr>calls := calls r @ context_calls r\<rparr>)"
    by (cases "audioContextRef r") (auto simp: closeAudioContext_def context_ok_def context_calls_def)
  then show ?thesis
    by (intro exI[of _ "context_calls r"]) simp
qed

lemma closeSession_good:
  "session_ok r \<Longrightarrow>
   closeSession r = Normal (r\<lparr>calls := calls r @ session_calls r, sessionPromiseRef := None\<rparr>)"
  by (cases "sessionPromiseRef r")
    (auto simp: closeSession_def session_ok_def session_calls_def split: promise.splits)

lemma closeSession_bad:
  "\<not> session_ok r \<Longrightarrow>
   \<exists>c. closeSession r = Abrupt (r\<lparr>calls := calls r @ c\<rparr>) \<and> prefix c (session_calls r)"
proof -
  assume "\<not> session_ok r"
  then have "closeSession r = Abrupt (r\<lparr>calls := calls r @ session_calls r\<rparr>)"
    by (cases "sessionPromiseRef r") (auto simp: closeSession_def session_ok_def session_calls_def split: promise.splits)
  then show ?thesis
    by (intro exI[of _ "session_calls r"]) simp
qed

lemmas plan_defs = frame_calls_def track_calls_def processor_calls_def gain_calls_def
  analyser_calls_def context_calls_def session_calls_def tracks_ok_def processor_ok_def
  gain_ok_def analyser_ok_def context_ok_def session_ok_def

lemma follows_plan_session:
  "follows_plan (run_steps [closeSession, deliverTranscript])
     (\<lambda>r. session_calls r @ []) (\<lambda>r. session_ok r \<and> True)"
  by (rule follows_plan_step[OF follows_plan_deliver closeSession_good closeSession_bad]) simp_all

lemma follows_plan_context:
  "follows_plan (run_steps [closeAudioContext, closeSession, deliverTranscript])
     (\<lambda>r. context_calls r @ session_calls r @ []) (\<lambda>r. context_ok r \<and> session_ok r \<and> True)"
  by (rule follows_plan_step[OF follows_plan_session closeAudioContext_good closeAudioContext_bad])
    (simp_all add: plan_defs)


lemma follows_plan_analyser:
  "follows_plan (run_steps [disconnectAnalyser, closeAudioContext, closeSession, deliverTranscript])
     (\<lambda>r. analyser_calls r @ context_calls r @ session_calls r @ [])
     (\<lambda>r. analyser_ok r \<and> context_ok r \<and> session_ok r \<and> True)"
  by (rule follows_plan_step[OF follows_plan_context disconnectAnalyser_good disconnectAnalyser_bad])
    (simp_all add: plan_defs)

lemma follows_plan_gain:
  "follows_plan
     (run_steps [disconnectGain, disconnectAnalyser, closeAudioContext, closeSession,
        deliverTranscript])
     (\<lambda>r. gain_calls r @ analyser_calls r @ context_calls r @ session_calls r @ [])
     (\<lambda>r. gain_ok r \<and> analyser_ok r \<and> context_ok r \<and> session_ok r \<and> True)"
  by (rule follows_plan_step[OF follows_plan_analyser disconnectGain_good disconnectGain_bad])
    (simp_all add: plan_defs)

lemma follows_plan_processor:
  "follows_plan
     (run_steps [disconnectProcessor, disconnectGain, disconnectAnalyser, closeAudioContext,
        closeSession, deliverTranscript])
     (\<lambda>r. processor_calls r @ gain_calls r @ analyser_calls r @ context_calls r
        @ session_calls r @ [])
     (\<lambda>r. processor_ok r \<and> gain_ok r \<and> analyser_ok r \<and> context_ok r \<and> session_ok r \<and> True)"
  by (rule follows_plan_step[OF follows_plan_gain disconnectProcessor_good disconnectProcessor_bad])
    (simp_all add: plan_defs)

lemma follows_plan_tracks:
  "follows_plan
     (run_steps [stopMediaTracks, disconnectProcessor, disconnectGain, disconnectAnalyser,
        closeAudioContext, closeSession, deliverTranscript])
     (\<lambda>r. track_calls r @ processor_calls r @ gain_calls r @ analyser_calls r
        @ context_calls r @ session_calls r @ [])
     (\<lambda>r. tracks_ok r \<and> processor_ok r \<and> gain_ok r \<and> analyser_ok r \<and> context_ok r
        \<and> session_ok r \<and> True)"
  by (rule follows_plan_step[OF follows_plan_processor stopMediaTracks_good stopMediaTracks_bad])
    (simp_all add: plan_defs)

lemma follows_plan_frame:
  "follows_plan
     (run_steps [cancelVisualization, stopMediaTracks, disconnectProcessor, disconnectGain,
        disconnectAnalyser, closeAudioContext, closeSession, deliverTranscript])
     (\<lambda>r. frame_calls r @ track_calls r @ processor_calls r @ gain_calls r @ analyser_calls r
        @ context_calls r @ session_calls r @ [])
     (\<lambda>r. True \<and> tracks_ok r \<and> processor_ok r \<and> gain_ok r \<and> analyser_ok r \<and> context_ok r
        \<and> session_ok r \<and> True)"
  by (rule follows_plan_step[OF follows_plan_tracks cancelVisualization_good])
    (simp_all add: plan_defs)

lemma follows_plan_release:
  "follows_plan
     (run_steps [cancelVisualization, stopMediaTracks, disconnectProcessor, disconnectGain,
        disconnectAnalyser, closeAudioContext, closeSession, deliverTranscript])
     planned_release releasable"
proof -
  have "planned_release = (\<lambda>r. frame_calls r @ track_calls r @ processor_calls r @ gain_calls r
      @ analyser_calls r @ context_calls r @ session_calls r @ [])"
    by (rule ext) (simp add: planned_release_def)
  moreover have "releasable = (\<lambda>r. True \<and> tracks_ok r \<and> processor_ok r \<and> gain_ok r
      \<and> analyser_ok r \<and> context_ok r \<and> session_ok r \<and> True)"
    by (rule ext) (simp add: releasable_def)
  ultimately show ?thesis
    using follows_plan_frame by simp
qed

lemma stopRecording_active:
  "isRecording r \<Longrightarrow>
   stopRecording r =
     run_steps [cancelVisualization, stopMediaTracks, disconnectProcessor, disconnectGain,
        disconnectAnalyser, closeAudioContext, closeSession, deliverTranscript]
       (r\<lparr>isRecording := False, audioLevel := 0\<rparr>)"
  by (simp add: stopRecording_def resetFlags_def)

lemma stop_spec:
  assumes "isRecording r"
  shows "\<not> isRecording (state_of (stopRecording r))"
    and "releasable r \<Longrightarrow> stopRecording r = Normal (state_of (stopRecording r))"
    and "releasable r \<Longrightarrow> new_calls r (state_of (stopRecording r)) =
           planned_release r @ [OnRecordingComplete (trim (transcriptionRef r))]"
    and "\<not> releasable r \<Longrightarrow> stopRecording r = Abrupt (state_of (stopRecording r))"
    and "\<not> releasable r \<Longrightarrow> prefix (new_calls r (state_of (stopRecording r))) (planned_release r)"
proof -
  let ?r1 = "r\<lparr>isRecording := False, audioLevel := 0\<rparr>"
  let ?run = "run_steps [cancelVisualization, stopMediaTracks, disconnectProcessor, disconnectGain,
        disconnectAnalyser, closeAudioContext, closeSession, deliverTranscript]"
  have eq: "stopRecording r = ?run ?r1"
    using assms by (rule stopRecording_active)
  have same: "planned_release ?r1 = planned_release r" "releasable ?r1 = releasable r"
    by (simp_all add: planned_release_def releasable_def plan_defs)
  have spec: "isRecording (state_of (?run ?r1)) = isRecording ?r1
        \<and> (releasable ?r1 \<longrightarrow> ?run ?r1 = Normal (state_of (?run ?r1))
              \<and> calls (state_of (?run ?r1)) =
                  calls ?r1 @ planned_release ?r1 @ [OnRecordingComplete (trim (transcriptionRef ?r1))])
        \<and> (\<not> releasable ?r1 \<longrightarrow> ?run ?r1 = Abrupt (state_of (?run ?r1))
              \<and> (\<exists>c. calls (state_of (?run ?r1)) = calls ?r1 @ c \<and> prefix c (planned_release ?r1)))"
    using follows_plan_release unfolding follows_plan_def by blast
  show "\<not> isRecording (state_of (stopRecording r))"
    using spec unfolding eq by simp
  show "releasable r \<Longrightarrow> stopRecording r = Normal (state_of (stopRecording r))"
    using spec unfolding eq same by simp
  show "releasable r \<Longrightarrow> new_calls r (state_of (stopRecording r)) =
           planned_release r @ [OnRecordingComplete (trim (transcriptionRef r))]"
    using spec unfolding eq same new_calls_def by simp
  show "\<not> releasable r \<Longrightarrow> stopRecording r = Abrupt (state_of (stopRecording r))"
    using spec unfolding eq same by simp
  show "\<not> releasable r \<Longrightarrow> prefix (new_calls r (state_of (stopRecording r))) (planned_release r)"
    using spec unfolding eq same new_calls_def by auto
qed


lemma rank_frame: "x \<in> set (frame_calls r) \<Longrightarrow> release_rank x = 1"
  by (cases "animationFrameIdRef r") (auto simp: frame_calls_def split: if_splits)

lemma rank_track: "x \<in> set (track_calls r) \<Longrightarrow> release_rank x = 2"
  by (cases "mediaStreamRef r") (auto simp: track_calls_def)

lemma rank_processor: "x \<in> set (processor_calls r) \<Longrightarrow> release_rank x = 3"
  by (cases "scriptProcessorRef r") (auto simp: processor_calls_def)

lemma rank_gain: "x \<in> set (gain_calls r) \<Longrightarrow> release_rank x = 4"
  by (cases "gainNodeRef r") (auto simp: gain_calls_def)

lemma rank_analyser: "x \<in> set (analyser_calls r) \<Longrightarrow> release_rank x = 5"
  by (cases "analyserNodeRef r") (auto simp: analyser_calls_def)

lemma rank_context: "x \<in> set (context_calls r) \<Longrightarrow> release_rank x = 6"
  by (cases "audioContextRef r") (auto simp: context_calls_def split: if_splits)

lemma rank_session: "x \<in> set (session_calls r) \<Longrightarrow> release_rank x = 7"
  by (cases "sessionPromiseRef r") (auto simp: session_calls_def split: promise.splits)

lemmas rank_parts = rank_frame rank_track rank_processor rank_gain rank_analyser rank_context
  rank_session

lemma sorted_const_rank: "(\<And>x. x \<in> set cs \<Longrightarrow> release_rank x = k) \<Longrightarrow> sorted (map release_rank cs)"
  by (induction cs) auto

lemma sorted_planned:
  "sorted (map release_rank (planned_release r @ [OnRecordingComplete t]))"
proof -
  have parts: "sorted (map release_rank (frame_calls r))" "sorted (map release_rank (track_calls r))"
    "sorted (map release_rank (processor_calls r))" "sorted (map release_rank (gain_calls r))"
    "sorted (map release_rank (analyser_calls r))" "sorted (map release_rank (context_calls r))"
    "sorted (map release_rank (session_calls r))"
    by (rule sorted_const_rank, erule rank_parts)+
  show ?thesis
    unfolding planned_release_def
    by (auto simp: sorted_append parts dest!: rank_parts)
qed





lemma prefix_sorted_rank:
  "prefix c p \<Longrightarrow> sorted (map release_rank p) \<Longrightarrow> sorted (map release_rank c)"
  by (auto simp: prefix_def sorted_append)


lemma stop_prefix_all:
  assumes "isRecording r"
  shows "prefix (new_calls r (state_of (stopRecording r)))
     (planned_release r @ [OnRecordingComplete (trim (transcriptionRef r))])"
proof (cases "releasable r")
  case True
  then show ?thesis
    using stop_spec(3)[OF assms] by simp
next
  case False
  then show ?thesis
    using stop_spec(5)[OF assms] by (simp add: prefix_prefix)
qed

subsection \<open>Stopping twice\<close>



subsection \<open>Evaluating the examples\<close>

lemmas eval_defs = goodSession_def openSession_def onopen_def startRecording_def
  initialRecorder_def stopRecording_def resetFlags_def cancelVisualization_def
  stopMediaTracks_def disconnectProcessor_def disconnectGain_def disconnectAnalyser_def
  closeAudioContext_def closeSession_def deliverTranscript_def new_calls_def Let_def
  trim_def str_def is_white_space_def delivered_def receive_def onmessage_def
  finalMessage_def interimMessage_def







subsection \<open>A stop among the other callbacks\<close>


lemma startRecording_split:
  "startRecording getUserMedia connect r =
     startRecording_resume getUserMedia connect (startRecording_begin r)"
  by (simp add: startRecording_def startRecording_begin_def startRecording_resume_def Let_def)





lemma runs_plan_nil: "runs_plan (run_steps []) (\<lambda>r. []) (\<lambda>r. True)"
  by (simp add: runs_plan_def keeps_def)

lemma runs_plan_step:
  assumes tail: "runs_plan (run_steps fs) plan ok"
    and good: "\<And>r. okf r \<Longrightarrow> f r = Normal (aftf r)"
    and bad: "\<And>r. \<not> okf r \<Longrightarrow> \<exists>c. f r = Abrupt (r\<lparr>calls := calls r @ c\<rparr>) \<and> prefix c (planf r)"
    and aft_calls: "\<And>r. calls (aftf r) = calls r @ planf r"
    and aft_keeps: "\<And>r. keeps r (aftf r)"
    and aft_plan: "\<And>r. plan (aftf r) = plan r"
    and aft_ok: "\<And>r. ok (aftf r) = ok r"
  shows "runs_plan (run_steps (f # fs)) (\<lambda>r. planf r @ plan r) (\<lambda>r. okf r \<and> ok r)"
  unfolding runs_plan_def
proof (intro allI)
  fix r
  let ?run = "run_steps (f # fs) r"
  show "keeps r (state_of ?run)
      \<and> (okf r \<and> ok r \<longrightarrow> ?run = Normal (state_of ?run)
            \<and> calls (state_of ?run) = calls r @ planf r @ plan r)
      \<and> (\<not> (okf r \<and> ok r) \<longrightarrow> ?run = Abrupt (state_of ?run)
            \<and> (\<exists>c. calls (state_of ?run) = calls r @ c \<and> prefix c (planf r @ plan r)))"
  proof (cases "okf r")
    case True
    then have run: "?run = run_steps fs (aftf r)"
      by (simp add: good)
    let ?t = "run_steps fs (aftf r)"
    from tail have t: "keeps (aftf r) (state_of ?t)
        \<and> (ok (aftf r) \<longrightarrow> ?t = Normal (state_of ?t)
              \<and> calls (state_of ?t) = calls (aftf r) @ plan (aftf r))
        \<and> (\<not> ok (aftf r) \<longrightarrow> ?t = Abrupt (state_of ?t)
              \<and> (\<exists>c. calls (state_of ?t) = calls (aftf r) @ c \<and> prefix c (plan (aftf r))))"
      unfolding runs_plan_def by blast
    have k: "keeps r (state_of ?t)"
      using t aft_keeps[of r] by (simp add: keeps_def)
    show ?thesis
    proof (cases "ok r")
      case ok: True
      with t True k show ?thesis
        unfolding run by (simp add: aft_calls aft_plan aft_ok)
    next
      case nok: False
      with t obtain c where c: "?t = Abrupt (state_of ?t)"
        "calls (state_of ?t) = calls (aftf r) @ c" "prefix c (plan r)"
        by (auto simp: aft_ok aft_plan)
      have "calls (state_of ?t) = calls r @ (planf r @ c)
          \<and> prefix (planf r @ c) (planf r @ plan r)"
        using c by (simp add: aft_calls)
      then have "\<exists>c'. calls (state_of ?t) = calls r @ c' \<and> prefix c' (planf r @ plan r)"
        by blast
      with nok c(1) k show ?thesis
        unfolding run by simp
    qed
  next
    case False
    from bad[OF False] obtain c where c: "f r = Abrupt (r\<lparr>calls := calls r @ c\<rparr>)"
      "prefix c (planf r)"
      by blast
    have run: "?run = Abrupt (r\<lparr>calls := calls r @ c\<rparr>)"
      by (simp add: c(1))
    have "calls (r\<lparr>calls := calls r @ c\<rparr>) = calls r @ c \<and> prefix c (planf r @ plan r)"
      using c(2) by (simp add: prefix_prefix)
    then have "\<exists>c'. calls (r\<lparr>calls := calls r @ c\<rparr>) = calls r @ c' \<and> prefix c' (planf r @ plan r)"
      by blast
    with False show ?thesis
      unfolding run by (simp add: keeps_def)
  qed
qed

lemma runs_plan_analyser:
  "runs_plan (run_steps [disconnectAnalyser]) (\<lambda>r. analyser_calls r @ [])
     (\<lambda>r. analyser_ok r \<and> True)"
  by (rule runs_plan_step[OF runs_plan_nil disconnectAnalyser_good disconnectAnalyser_bad])
    (simp_all add: keeps_def)

lemma runs_plan_gain:
  "runs_plan (run_steps [disconnectGain, disconnectAnalyser])
     (\<lambda>r. gain_calls r @ analyser_calls r @ [])
     (\<lambda>r. gain_ok r \<and> analyser_ok r \<and> True)"
  by (rule runs_plan_step[OF runs_plan_analyser disconnectGain_good disconnectGain_bad])
    (simp_all add: keeps_def plan_defs)

lemma runs_plan_processor:
  "runs_plan (run_steps [disconnectProcessor, disconnectGain, disconnectAnalyser])
     (\<lambda>r. processor_calls r @ gain_calls r @ analyser_calls r @ [])
     (\<lambda>r. processor_ok r \<and> gain_ok r \<and> analyser_ok r \<and> True)"
  by (rule runs_plan_step[OF runs_plan_gain disconnectProcessor_good disconnectProcessor_bad])
    (simp_all add: keeps_def plan_defs)

lemma runs_plan_tracks:
  "runs_plan (run_steps [stopMediaTracks, disconnectProcessor, disconnectGain, disconnectAnalyser])
     (\<lambda>r. track_calls r @ processor_calls r @ gain_calls r @ analyser_calls r @ [])
     (\<lambda>r. tracks_ok r \<and> processor_ok r \<and> gain_ok r \<and> analyser_ok r \<and> True)"
  by (rule runs_plan_step[OF runs_plan_processor stopMediaTracks_good stopMediaTracks_bad])
    (simp_all add: keeps_def plan_defs)

lemma runs_plan_frame:
  "runs_plan
     (run_steps [cancelVisualization, stopMediaTracks, disconnectProcessor, disconnectGain,
        disconnectAnalyser])
     (\<lambda>r. frame_calls r @ track_calls r @ processor_calls r @ gain_calls r @ analyser_calls r @ [])
     (\<lambda>r. True \<and> tracks_ok r \<and> processor_ok r \<and> gain_ok r \<and> analyser_ok r \<and> True)"
  by (rule runs_plan_step[OF runs_plan_tracks cancelVisualization_good])
    (simp_all add: keeps_def plan_defs)

lemma runs_plan_sync:
  "runs_plan
     (run_steps [cancelVisualization, stopMediaTracks, disconnectProcessor, disconnectGain,
        disconnectAnalyser])
     sync_calls sync_ok"
proof -
  have "sync_calls = (\<lambda>r. frame_calls r @ track_calls r @ processor_calls r @ gain_calls r
      @ analyser_calls r @ [])"
    by (rule ext) (simp add: sync_calls_def)
  moreover have "sync_ok = (\<lambda>r. True \<and> tracks_ok r \<and> processor_ok r \<and> gain_ok r
      \<and> analyser_ok r \<and> True)"
    by (rule ext) (simp add: sync_ok_def)
  ultimately show ?thesis
    using runs_plan_frame by simp
qed

lemma sync_part:
  assumes "isRecording r"
  shows "transcriptionRef (state_of (stopRecording_sync r)) = transcriptionRef r"
    and "audioContextRef (state_of (stopRecording_sync r)) = audioContextRef r"
    and "sessionPromiseRef (state_of (stopRecording_sync r)) = sessionPromiseRef r"
    and "sync_ok r \<Longrightarrow> stopRecording_sync r = Normal (state_of (stopRecording_sync r))"
    and "sync_ok r \<Longrightarrow> calls (state_of (stopRecording_sync r)) = calls r @ sync_calls r"
    and "\<not> sync_ok r \<Longrightarrow> stopRecording_sync r = Abrupt (state_of (stopRecording_sync r))"
    and "\<exists>c. calls (state_of (stopRecording_sync r)) = calls r @ c \<and> prefix c (sync_calls r)"
proof -
  let ?r0 = "r\<lparr>isRecording := False, audioLevel := 0\<rparr>"
  let ?run = "run_steps [cancelVisualization, stopMediaTracks, disconnectProcessor, disconnectGain,
        disconnectAnalyser]"
  have eq: "stopRecording_sync r = ?run ?r0"
    by (simp add: stopRecording_sync_def resetFlags_def)
  have same: "sync_calls ?r0 = sync_calls r" "sync_ok ?r0 = sync_ok r"
    by (simp_all add: sync_calls_def sync_ok_def plan_defs)
  have spec: "keeps ?r0 (state_of (?run ?r0))
        \<and> (sync_ok ?r0 \<longrightarrow> ?run ?r0 = Normal (state_of (?run ?r0))
              \<and> calls (state_of (?run ?r0)) = calls ?r0 @ sync_calls ?r0)
        \<and> (\<not> sync_ok ?r0 \<longrightarrow> ?run ?r0 = Abrupt (state_of (?run ?r0))
              \<and> (\<exists>c. calls (state_of (?run ?r0)) = calls ?r0 @ c \<and> prefix c (sync_calls ?r0)))"
    using runs_plan_sync unfolding runs_plan_def by blast
  show "transcriptionRef (state_of (stopRecording_sync r)) = transcriptionRef r"
    using spec unfolding eq by (simp add: keeps_def)
  show "audioContextRef (state_of (stopRecording_sync r)) = audioContextRef r"
    using spec unfolding eq by (simp add: keeps_def)
  show "sessionPromiseRef (state_of (stopRecording_sync r)) = sessionPromiseRef r"
    using spec unfolding eq by (simp add: keeps_def)
  show "sync_ok r \<Longrightarrow> stopRecording_sync r = Normal (state_of (stopRecording_sync r))"
    using spec unfolding eq same by simp
  show "sync_ok r \<Longrightarrow> calls (state_of (stopRecording_sync r)) = calls r @ sync_calls r"
    using spec unfolding eq same by simp
  show "\<not> sync_ok r \<Longrightarrow> stopRecording_sync r = Abrupt (state_of (stopRecording_sync r))"
    using spec unfolding eq same by simp
  show "\<exists>c. calls (state_of (stopRecording_sync r)) = calls r @ c \<and> prefix c (sync_calls r)"
  proof (cases "sync_ok r")
    case True
    then have "calls (state_of (?run ?r0)) = calls r @ sync_calls r"
      using spec unfolding same by simp
    then show ?thesis
      unfolding eq by (intro exI[of _ "sync_calls r"]) simp
  next
    case False
    then show ?thesis
      using spec unfolding eq same by simp
  qed
qed

lemma is_release_rank: "is_release x = (0 < release_rank x \<and> release_rank x < 8)"
  by (cases x) (simp_all add: is_release_def)

lemma release_sync: "x \<in> set (sync_calls r) \<Longrightarrow> is_release x"
  unfolding sync_calls_def is_release_rank by (auto dest!: rank_parts)

lemma release_context: "x \<in> set (context_calls r) \<Longrightarrow> is_release x"
  unfolding is_release_rank by (auto dest!: rank_parts)

lemma filter_all: "(\<And>x. x \<in> set xs \<Longrightarrow> P x) \<Longrightarrow> filter P xs = xs"
  by (induction xs) auto



lemma starts_only_quiet: "starts_only c \<Longrightarrow> delivered c = [] \<and> filter is_release c = []"
  unfolding starts_only_def
  by (induction c) (auto simp: delivered_def is_release_def)

lemma handle_calls: "\<exists>c. calls (handle e r) = calls r @ c \<and> starts_only c"
proof (cases e)
  case (EffectRun p)
  then show ?thesis
    by (auto simp: mountEffect_def startRecording_begin_def starts_only_def)
next
  case (MediaSettled g c)
  then show ?thesis
    by (cases g) (auto simp: startRecording_resume_def starts_only_def)
next
  case (MessageReceived m)
  then show ?thesis
    by (cases "inputTranscriptionOf m") (auto simp: onmessage_def starts_only_def)
next
  case (SessionOpened ctx g a p n)
  then show ?thesis
    by (auto simp: onopen_def starts_only_def)
qed

lemma during_calls: "\<exists>c. calls (during events r) = calls r @ c \<and> starts_only c"
  unfolding during_def
proof (induction events arbitrary: r)
  case Nil
  then show ?case by (simp add: starts_only_def)
next
  case (Cons e es)
  obtain c1 where c1: "calls (handle e r) = calls r @ c1" "starts_only c1"
    using handle_calls by blast
  obtain c2 where c2: "calls (foldl (\<lambda>r' e. handle e r') (handle e r) es) = calls (handle e r) @ c2"
    "starts_only c2"
    using Cons.IH by blast
  have "calls (foldl (\<lambda>r' e. handle e r') r (e # es)) = calls r @ (c1 @ c2) \<and> starts_only (c1 @ c2)"
    using c1 c2 by (simp add: starts_only_def)
  then show ?case
    by blast
qed

lemma suspend_calls: "\<exists>c. calls (snd (suspend schedule r)) = calls r @ c \<and> starts_only c"
proof (cases schedule)
  case Nil
  then show ?thesis by (simp add: suspend_def starts_only_def)
next
  case (Cons events rest)
  then show ?thesis
    using during_calls[of events r] by (simp add: suspend_def)
qed

lemma context_stage:
  shows "context_ok r \<Longrightarrow>
           snd (awaitContextClose schedule r) = Normal (state_of (snd (awaitContextClose schedule r)))"
    and "\<not> context_ok r \<Longrightarrow>
           snd (awaitContextClose schedule r) = Abrupt (state_of (snd (awaitContextClose schedule r)))"
    and "\<exists>c. calls (state_of (snd (awaitContextClose schedule r))) = calls r @ context_calls r @ c
           \<and> starts_only c"
proof -
  show "context_ok r \<Longrightarrow>
           snd (awaitContextClose schedule r) = Normal (state_of (snd (awaitContextClose schedule r)))"
    by (cases "audioContextRef r") (auto simp: awaitContextClose_def context_ok_def Let_def)
  show "\<not> context_ok r \<Longrightarrow>
           snd (awaitContextClose schedule r) = Abrupt (state_of (snd (awaitContextClose schedule r)))"
    by (cases "audioContextRef r") (auto simp: awaitContextClose_def context_ok_def Let_def)
  show "\<exists>c. calls (state_of (snd (awaitContextClose schedule r))) = calls r @ context_calls r @ c
           \<and> starts_only c"
  proof (cases "audioContextRef r")
    case None
    then show ?thesis
      by (simp add: awaitContextClose_def context_calls_def starts_only_def)
  next
    case (Some ctx)
    show ?thesis
    proof (cases "contextState ctx = Closed")
      case True
      with Some show ?thesis
        by (simp add: awaitContextClose_def context_calls_def starts_only_def)
    next
      case False
      obtain c where c: "calls (snd (suspend schedule (r\<lparr>calls := calls r @ [ContextClose]\<rparr>))) =
          calls (r\<lparr>calls := calls r @ [ContextClose]\<rparr>) @ c" "starts_only c"
        using suspend_calls by blast
      have "calls (state_of (snd (awaitContextClose schedule r))) = calls r @ context_calls r @ c"
        using Some False c(1) by (simp add: awaitContextClose_def context_calls_def Let_def)
      with c(2) show ?thesis
        by blast
    qed
  qed
qed


lemma new_calls_append: "calls r' = calls r @ c \<Longrightarrow> new_calls r r' = c"
  by (simp add: new_calls_def)




text \<open>
  Two facts about \<open>stopRecording\<close> carry over to every schedule: a stop that is not
  recording is a no-op, and the release calls of a stop are made in the order of the
  source.
\<close>

lemma interleaved_not_recording:
  "\<not> isRecording r \<Longrightarrow> stopRecording_interleaved schedule r = Normal r"
  by (simp add: stopRecording_interleaved_def)

lemma session_stage_calls:
  "\<exists>e s. calls (state_of (awaitSession schedule r)) = calls r @ e @ s \<and> starts_only e
     \<and> (s = [] \<or> s = [SessionClose])"
proof (cases "sessionPromiseRef r")
  case None
  have "calls (state_of (awaitSession schedule r)) = calls r @ [] @ [] \<and> starts_only []"
    using None by (simp add: awaitSession_def starts_only_def)
  then show ?thesis
    by blast
next
  case (Some promise)
  obtain c where c: "calls (snd (suspend schedule r)) = calls r @ c" "starts_only c"
    using suspend_calls by blast
  show ?thesis
  proof (cases promise)
    case Rejected
    have "calls (state_of (awaitSession schedule r)) = calls r @ c @ []"
      using Some Rejected c(1) by (simp add: awaitSession_def Let_def)
    with c(2) show ?thesis
      by blast
  next
    case (Resolved session)
    have "calls (state_of (awaitSession schedule r)) = calls r @ c @ [SessionClose]"
      using Some Resolved c(1) by (simp add: awaitSession_def Let_def)
    with c(2) show ?thesis
      by blast
  qed
qed

lemma sorted_release_calls:
  assumes "s = [] \<or> s = [SessionClose]"
  shows "sorted (map release_rank (sync_calls r @ context_calls r @ s))"
proof -
  have "prefix (sync_calls r @ context_calls r) (planned_release r @ [OnRecordingComplete t])" for t
    by (simp add: sync_calls_def planned_release_def)
  then have "sorted (map release_rank (sync_calls r @ context_calls r))"
    using sorted_planned by (rule prefix_sorted_rank)
  moreover have "\<And>x. x \<in> set (sync_calls r @ context_calls r) \<Longrightarrow> release_rank x \<le> 7"
    unfolding sync_calls_def by (auto dest!: rank_parts)
  ultimately show ?thesis
    using assms by (auto simp: sorted_append simp flip: append_assoc)
qed

lemma interleaved_release_order:
  assumes "isRecording r"
  shows "sorted (map release_rank
           (filter is_release (new_calls r (state_of (stopRecording_interleaved schedule r)))))"
proof (cases "sync_ok r")
  case False
  let ?r1 = "state_of (stopRecording_sync r)"
  have "stopRecording_sync r = Abrupt ?r1"
    using assms False by (rule sync_part(6))
  then have run: "stopRecording_interleaved schedule r = Abrupt ?r1"
    using assms by (cases "stopRecording_sync r") (simp_all add: stopRecording_interleaved_def)
  obtain c where c: "calls ?r1 = calls r @ c" "prefix c (sync_calls r)"
    using sync_part(7)[OF assms] by blast
  have "\<And>x. x \<in> set c \<Longrightarrow> is_release x"
    using c(2) release_sync set_mono_prefix by blast
  then have "filter is_release c = c"
    by (rule filter_all)
  moreover have "new_calls r ?r1 = c"
    using c(1) by (rule new_calls_append)
  moreover have "prefix c (sync_calls r @ context_calls r @ [])"
    using c(2) by (simp add: prefix_prefix)
  then have "sorted (map release_rank c)"
    using sorted_release_calls[of "[]" r] by (simp add: prefix_sorted_rank)
  ultimately show ?thesis
    unfolding run by simp
next
  case True
  define x1 where "x1 = state_of (stopRecording_sync r)"
  define o2 where "o2 = snd (awaitContextClose schedule x1)"
  define x2 where "x2 = state_of o2"
  define o3 where "o3 = awaitSession (fst (awaitContextClose schedule x1)) x2"
  define x3 where "x3 = state_of o3"
  have s1: "stopRecording_sync r = Normal x1" and c1: "calls x1 = calls r @ sync_calls r"
    using sync_part(4,5)[OF assms True] unfolding x1_def by simp_all
  have same: "context_calls x1 = context_calls r"
    using sync_part(2)[OF assms] unfolding x1_def by (simp add: context_calls_def)
  obtain e2 where e2: "calls x2 = calls x1 @ context_calls x1 @ e2" "starts_only e2"
    using context_stage(3)[of schedule x1] unfolding x2_def o2_def by blast
  obtain e3 s where e3: "calls x3 = calls x2 @ e3 @ s" "starts_only e3"
    "s = [] \<or> s = [SessionClose]"
    using session_stage_calls[of "fst (awaitContextClose schedule x1)" x2]
    unfolding x3_def o3_def by blast
  have rel: "filter is_release (sync_calls r) = sync_calls r"
    "filter is_release (context_calls r) = context_calls r"
    "filter is_release e2 = []" "filter is_release e3 = []"
    "filter is_release s = s"
    using starts_only_quiet[OF e2(2)] starts_only_quiet[OF e3(2)] e3(3)
    by (auto intro: filter_all release_sync release_context simp: is_release_def)
  have n2: "new_calls r x2 = sync_calls r @ context_calls r @ e2"
    using c1 e2(1) same by (intro new_calls_append) simp
  have n3: "new_calls r x3 = sync_calls r @ context_calls r @ e2 @ e3 @ s"
    using c1 e2(1) e3(1) same by (intro new_calls_append) simp
  have f2: "filter is_release (new_calls r x2) = sync_calls r @ context_calls r @ []"
    unfolding n2 by (simp add: rel)
  have f3: "filter is_release (new_calls r x3) = sync_calls r @ context_calls r @ s"
    unfolding n3 by (simp add: rel)
  have g2: "sorted (map release_rank (filter is_release (new_calls r x2)))"
    unfolding f2 by (rule sorted_release_calls) simp
  have g3: "sorted (map release_rank (filter is_release (new_calls r x3)))"
    unfolding f3 using e3(3) by (rule sorted_release_calls)
  have g4: "sorted (map release_rank (filter is_release
      (new_calls r (x3\<lparr>calls := calls x3 @ [OnRecordingComplete t]\<rparr>))))" for t
  proof -
    have "new_calls r (x3\<lparr>calls := calls x3 @ [OnRecordingComplete t]\<rparr>) =
        (sync_calls r @ context_calls r @ e2 @ e3 @ s) @ [OnRecordingComplete t]"
      using c1 e2(1) e3(1) same by (intro new_calls_append) simp
    then have "filter is_release (new_calls r (x3\<lparr>calls := calls x3 @ [OnRecordingComplete t]\<rparr>)) =
        sync_calls r @ context_calls r @ s"
      by (simp add: rel is_release_def)
    then show ?thesis
      using e3(3) by (simp only: sorted_release_calls)
  qed
  have final: "state_of (stopRecording_interleaved schedule r) = x2
      \<or> state_of (stopRecording_interleaved schedule r) = x3
      \<or> state_of (stopRecording_interleaved schedule r) =
          x3\<lparr>calls := calls x3 @ [OnRecordingComplete (trim (transcriptionRef x3))]\<rparr>"
  proof (cases o2)
    case (Abrupt y)
    then show ?thesis
      using assms s1 unfolding x2_def o2_def
      by (simp add: stopRecording_interleaved_def)
  next
    case n: (Normal y)
    then have y: "y = x2"
      unfolding x2_def by simp
    show ?thesis
    proof (cases o3)
      case (Abrupt z)
      then show ?thesis
        using assms s1 n y unfolding x3_def o3_def o2_def
        by (simp add: stopRecording_interleaved_def)
    next
      case (Normal z)
      then show ?thesis
        using assms s1 n y unfolding x3_def o3_def o2_def
        by (simp add: stopRecording_interleaved_def deliverTranscript_def)
    qed
  qed
  then show ?thesis
    using g2 g3 g4 by metis
qed

subsection \<open>The order of the release steps\<close>

text \<open>
  Claim C8. On an active session the calls of \<open>stopRecording\<close> are made in one fixed
  order: cancel the animation frame, stop the media tracks, disconnect the processor (then
  the gain and analyser nodes), close the audio context, close the live session, and only
  then hand over the transcript; each call is made after the previous one has returned.
  When no release throws, the calls are exactly those of the resources held, in that
  order. A ref that is already \<open>null\<close>, or an audio context that is already closed,
  contributes no call and cannot make the run fail.
\<close>

theorem stopRecording_release_order:
  assumes "isRecording r"
  shows "sorted (map release_rank (new_calls r (state_of (stopRecording r))))
    \<and> (releasable r \<longrightarrow>
          stopRecording r = Normal (state_of (stopRecording r))
          \<and> new_calls r (state_of (stopRecording r)) =
              frame_calls r @ track_calls r @ processor_calls r @ gain_calls r
              @ analyser_calls r @ context_calls r @ session_calls r
              @ [OnRecordingComplete (trim (transcriptionRef r))])
    \<and> (animationFrameIdRef r = None \<longrightarrow> frame_calls r = [])
    \<and> (mediaStreamRef r = None \<longrightarrow> track_calls r = [] \<and> tracks_ok r)
    \<and> (scriptProcessorRef r = None \<longrightarrow> processor_calls r = [] \<and> processor_ok r)
    \<and> (gainNodeRef r = None \<longrightarrow> gain_calls r = [] \<and> gain_ok r)
    \<and> (analyserNodeRef r = None \<longrightarrow> analyser_calls r = [] \<and> analyser_ok r)
    \<and> (audioContextRef r = None \<longrightarrow> context_calls r = [] \<and> context_ok r)
    \<and> (audioContextRef r = Some (AudioContext Closed b) \<longrightarrow> context_calls r = [] \<and> context_ok r)
    \<and> (sessionPromiseRef r = None \<longrightarrow> session_calls r = [] \<and> session_ok r)"
proof -
  have "sorted (map release_rank (new_calls r (state_of (stopRecording r))))"
    using stop_prefix_all[OF assms] sorted_planned by (rule prefix_sorted_rank)
  moreover have "releasable r \<Longrightarrow> stopRecording r = Normal (state_of (stopRecording r))"
    using assms by (rule stop_spec(2))
  moreover have "releasable r \<Longrightarrow> new_calls r (state_of (stopRecording r)) =
              frame_calls r @ track_calls r @ processor_calls r @ gain_calls r
              @ analyser_calls r @ context_calls r @ session_calls r
              @ [OnRecordingComplete (trim (transcriptionRef r))]"
    using stop_spec(3)[OF assms] by (simp add: planned_release_def)
  ultimately show ?thesis
    by (simp add: plan_defs)
qed

theorem stopRecording_release_order_witness:
  "isRecording goodSession \<and> releasable goodSession
   \<and> stopRecording goodSession = Normal (state_of (stopRecording goodSession))
   \<and> new_calls goodSession (state_of (stopRecording goodSession)) =
      [CancelAnimationFrame 1, TrackStop 0, ProcessorDisconnect, GainDisconnect,
       AnalyserDisconnect, ContextClose, SessionClose, OnRecordingComplete []]"
proof -
  have h: "isRecording goodSession"
    by (simp add: eval_defs)
  have k: "releasable goodSession"
    by (simp add: releasable_def plan_defs eval_defs)
  have e: "frame_calls goodSession @ track_calls goodSession @ processor_calls goodSession
      @ gain_calls goodSession @ analyser_calls goodSession @ context_calls goodSession
      @ session_calls goodSession @ [OnRecordingComplete (trim (transcriptionRef goodSession))] =
      [CancelAnimationFrame 1, TrackStop 0, ProcessorDisconnect, GainDisconnect,
       AnalyserDisconnect, ContextClose, SessionClose, OnRecordingComplete []]"
    by (simp add: plan_defs eval_defs)
  show ?thesis
    using h k stopRecording_release_order[OF h] unfolding e by simp
qed


subsection \<open>A release step that fails\<close>




subsection \<open>The transcript\<close>




subsection \<open>Sample conversion\<close>


lemma sint_word_of_int16: "sint (word_of_int n :: 16 word) = signed16 n"
  by (simp add: signed16_def sint_sbintrunc' signed_take_bit_eq_take_bit_shift take_bit_eq_mod)

text \<open>
  Claim C7. \<open>createBlob\<close> converts every sample on its own: the sample is multiplied by
  32768 when it is negative and by 32767 otherwise, and the product is stored as a 16-bit
  integer without clamping, so the stored value is the truncated product reduced modulo
  \<open>2 ^ 16\<close> and read as two's complement. A sample of \<open>2\<close> is stored as \<open>-2\<close>.
\<close>

theorem createBlob_unclamped:
  "createBlob_int16 data =
     map (\<lambda>x. ToInt16 (if less_zero x then times x 32768 else times x 32767)) data
   \<and> sint (sample_to_int16 (Finite x)) =
       signed16 (trunc (if x < 0 then x * 32768 else x * 32767))
   \<and> sample_to_int16 PosInfinity = 0 \<and> sample_to_int16 NegInfinity = 0
   \<and> sample_to_int16 NaN = 0"
  by (simp add: createBlob_int16_def sample_to_int16_def sint_word_of_int16 fun_eq_iff)

theorem createBlob_unclamped_witness:
  "sint (sample_to_int16 (Finite 2)) = - 2
   \<and> sint (sample_to_int16 (Finite (- 3 / 2))) = 16384
   \<and> sint (sample_to_int16 (Finite 1)) = 32767
   \<and> sint (sample_to_int16 (Finite (- 1))) = - 32768
   \<and> sint (sample_to_int16 (Finite (1 / 2))) = 16383"
proof -
  have half: "\<lfloor>32767 / 2 :: rat\<rfloor> = 16383"
    by linarith
  show ?thesis
    using createBlob_unclamped[of "[]" 2] createBlob_unclamped[of "[]" "- 3 / 2"]
      createBlob_unclamped[of "[]" 1] createBlob_unclamped[of "[]" "- 1"]
      createBlob_unclamped[of "[]" "1 / 2"]
    by (simp add: signed16_def trunc_def half)
qed


section \<open>Properties of the application\<close>

lemmas storage_defs = getSavedDreams_def getSavedDreams_try_def saveDreams_def saveNewDream_def
  getItem_def removeItem_def setItem_def

lemmas example_defs = examplePlatform_def exampleRemote_def noImageRemote_def emptyStorage_def
  corruptStorage_def initialApp_def DREAMS_KEY_def str_def

lemmas example2_defs = dream1_def dream2_def journalApp_def fullStorageApp_def example_defs

lemma saveDreams_cases:
  "(length DREAMS_KEY + length (JSON_stringify P dreams) \<le> quota ls \<longrightarrow>
      saveDreams P dreams ls = ls\<lparr>items := (items ls)(DREAMS_KEY \<mapsto> JSON_stringify P dreams)\<rparr>)
   \<and> (quota ls < length DREAMS_KEY + length (JSON_stringify P dreams) \<longrightarrow>
      saveDreams P dreams ls = ls)"
  by (simp add: saveDreams_def setItem_def)

lemma trim_empty_iff: "trim s = [] \<longleftrightarrow> list_all is_white_space s"
proof
  assume "trim s = []"
  then have "dropWhile is_white_space (rev (dropWhile is_white_space s)) = []"
    by (simp add: trim_def)
  then have all: "\<forall>x\<in>set (dropWhile is_white_space s). is_white_space x"
    by simp
  have "dropWhile is_white_space s = []"
  proof (rule ccontr)
    assume ne: "dropWhile is_white_space s \<noteq> []"
    then have "\<not> is_white_space (hd (dropWhile is_white_space s))"
      by (rule hd_dropWhile)
    moreover have "hd (dropWhile is_white_space s) \<in> set (dropWhile is_white_space s)"
      using ne by simp
    ultimately show False
      using all by blast
  qed
  then show "list_all is_white_space s"
    by (simp add: list_all_iff)
next
  assume "list_all is_white_space s"
  then have e: "dropWhile is_white_space s = []"
    by (simp add: list_all_iff)
  show "trim s = []"
    unfolding trim_def e by simp
qed

subsection \<open>Reading the stored history\<close>

text \<open>
  Claim C6. \<open>getSavedDreams\<close> never throws. When the key is missing or holds the empty
  string it returns the empty list and leaves the store alone; when the stored text does
  not parse it returns the empty list and removes the key, so the corrupt text is
  discarded. The effect that loads the history on mount therefore never fails.
\<close>

theorem getSavedDreams_never_throws:
  "(\<exists>dreams. fst (getSavedDreams P ls) = Inr dreams)
   \<and> (getItem DREAMS_KEY ls = None \<or> getItem DREAMS_KEY ls = Some []
        \<longrightarrow> getSavedDreams P ls = (Inr [], ls))
   \<and> (\<forall>s. getItem DREAMS_KEY ls = Some s \<and> s \<noteq> [] \<and> isl (JSON_parse P s)
        \<longrightarrow> getSavedDreams P ls = (Inr [], removeItem DREAMS_KEY ls)
            \<and> getItem DREAMS_KEY (removeItem DREAMS_KEY ls) = None)
   \<and> (\<exists>a'. loadDreams P a = Inr a')"
proof -
  have never: "\<exists>dreams. fst (getSavedDreams P ls) = Inr dreams" for ls
    by (cases "getSavedDreams_try P ls") (simp_all add: getSavedDreams_def)
  have absent: "getSavedDreams P ls = (Inr [], ls)"
    if "getItem DREAMS_KEY ls = None \<or> getItem DREAMS_KEY ls = Some []"
    using that by (auto simp: getSavedDreams_def getSavedDreams_try_def)
  have corrupt: "getSavedDreams P ls = (Inr [], removeItem DREAMS_KEY ls)
      \<and> getItem DREAMS_KEY (removeItem DREAMS_KEY ls) = None"
    if "getItem DREAMS_KEY ls = Some s \<and> s \<noteq> [] \<and> isl (JSON_parse P s)" for s
    using that
    by (cases "JSON_parse P s")
      (simp_all add: getSavedDreams_def getSavedDreams_try_def getItem_def removeItem_def)
  have "\<exists>a'. loadDreams P a = Inr a'"
    using never[of "storage a"]
    by (cases "getSavedDreams P (storage a)") (auto simp: loadDreams_def)
  with never absent corrupt show ?thesis
    by blast
qed

theorem getSavedDreams_never_throws_witness:
  "getItem DREAMS_KEY corruptStorage = Some (str ''{oops'')
   \<and> str ''{oops'' \<noteq> []
   \<and> isl (JSON_parse examplePlatform (str ''{oops''))
   \<and> fst (getSavedDreams examplePlatform corruptStorage) = Inr []
   \<and> getItem DREAMS_KEY (snd (getSavedDreams examplePlatform corruptStorage)) = None
   \<and> getItem DREAMS_KEY emptyStorage = None
   \<and> getSavedDreams examplePlatform emptyStorage = (Inr [], emptyStorage)"
proof -
  have h: "getItem DREAMS_KEY corruptStorage = Some (str ''{oops'') \<and> str ''{oops'' \<noteq> []
      \<and> isl (JSON_parse examplePlatform (str ''{oops''))"
    by (simp add: getItem_def example_defs)
  have k: "getItem DREAMS_KEY emptyStorage = None"
    by (simp add: getItem_def example_defs)
  show ?thesis
    using h k getSavedDreams_never_throws[of examplePlatform corruptStorage initialApp]
      getSavedDreams_never_throws[of examplePlatform emptyStorage initialApp]
    by auto
qed

subsection \<open>An empty recording\<close>

text \<open>
  Claim C9. When the transcript handed to \<open>handleRecordingComplete\<close> is empty or made
  of whitespace only, the handler sets the error message and the idle state and does
  nothing else: no entry is created in memory or in the store, and no request is sent.
\<close>

theorem empty_recording_creates_nothing:
  assumes "list_all is_white_space transcription"
  shows "handleRecordingComplete P R transcription a =
       a\<lparr>error := Some (str ''The recording was empty. Please try again.''), appState := IDLE\<rparr>
     \<and> allDreams (handleRecordingComplete P R transcription a) = allDreams a
     \<and> currentDream (handleRecordingComplete P R transcription a) = currentDream a
     \<and> storage (handleRecordingComplete P R transcription a) = storage a
     \<and> sent (handleRecordingComplete P R transcription a) = sent a
     \<and> error (handleRecordingComplete P R transcription a) =
         Some (str ''The recording was empty. Please try again.'')
     \<and> appState (handleRecordingComplete P R transcription a) = IDLE"
proof -
  have "trim transcription = []"
    using assms by (simp add: trim_empty_iff)
  then show ?thesis
    by (simp add: handleRecordingComplete_def)
qed

theorem empty_recording_creates_nothing_witness:
  "list_all is_white_space (str ''   '')
   \<and> allDreams (handleRecordingComplete examplePlatform exampleRemote (str ''   '') initialApp) = []
   \<and> sent (handleRecordingComplete examplePlatform exampleRemote (str ''   '') initialApp) = []
   \<and> appState (handleRecordingComplete examplePlatform exampleRemote (str ''   '') initialApp) = IDLE
   \<and> list_all is_white_space []
   \<and> sent (handleRecordingComplete examplePlatform exampleRemote [] initialApp) = []"
proof -
  have h: "list_all is_white_space (str ''   '')"
    by (simp add: str_def is_white_space_def)
  have k: "list_all is_white_space []"
    by simp
  show ?thesis
    using h empty_recording_creates_nothing[OF h, of examplePlatform exampleRemote initialApp]
      empty_recording_creates_nothing[OF k, of examplePlatform exampleRemote initialApp]
    by (simp add: initialApp_def)
qed


subsection \<open>An entry is saved whole or not at all\<close>

text \<open>
  Claim C1. If the image request or the interpretation request fails, the handler leaves
  the list in memory, the current dream and the store as they were and reports an error.
  Whenever the list or the store did change, both requests had succeeded and what was
  inserted is the whole entry, built from both results.
\<close>

theorem dream_entry_saved_only_after_both:
  "(isl (snd (generateDreamImage R t (artStyle a) (aspectRatio a) (customImagePrompt a)))
      \<or> isl (snd (interpretDream R t))
    \<longrightarrow> allDreams (handleRecordingComplete P R t a) = allDreams a
        \<and> storage (handleRecordingComplete P R t a) = storage a
        \<and> currentDream (handleRecordingComplete P R t a) = currentDream a
        \<and> appState (handleRecordingComplete P R t a) = IDLE
        \<and> error (handleRecordingComplete P R t a) \<noteq> None)
   \<and> (allDreams (handleRecordingComplete P R t a) \<noteq> allDreams a
      \<or> storage (handleRecordingComplete P R t a) \<noteq> storage a
    \<longrightarrow> (\<exists>imageUrl interpretation.
          snd (generateDreamImage R t (artStyle a) (aspectRatio a) (customImagePrompt a)) = Inr imageUrl
          \<and> snd (interpretDream R t) = Inr interpretation
          \<and> allDreams (handleRecordingComplete P R t a) =
              \<lparr>id' = Date_now_toString R, date' = Date_toISOString R, transcription' = t,
               imageUrl' = imageUrl, interpretation' = interpretation, isFavorite' = Some False\<rparr>
              # allDreams a
          \<and> storage (handleRecordingComplete P R t a) =
              saveNewDream P
                \<lparr>id' = Date_now_toString R, date' = Date_toISOString R, transcription' = t,
                 imageUrl' = imageUrl, interpretation' = interpretation, isFavorite' = Some False\<rparr>
                (storage a)))"
proof (cases "trim t = []")
  case True
  then show ?thesis
    by (simp add: handleRecordingComplete_def)
next
  case False
  show ?thesis
  proof (cases "snd (generateDreamImage R t (artStyle a) (aspectRatio a) (customImagePrompt a))")
    case (Inl e)
    with False show ?thesis
      by (simp add: handleRecordingComplete_def generateDreamAnalysis_def Let_def)
  next
    case image: (Inr imageUrl)
    show ?thesis
    proof (cases "snd (interpretDream R t)")
      case (Inl e)
      with False image show ?thesis
        by (simp add: handleRecordingComplete_def generateDreamAnalysis_def Let_def)
    next
      case (Inr reading)
      with False image show ?thesis
        by (simp add: handleRecordingComplete_def generateDreamAnalysis_def Let_def)
    qed
  qed
qed

theorem dream_entry_saved_only_after_both_witness:
  "isl (snd (generateDreamImage noImageRemote (str ''I was flying'') (artStyle initialApp)
        (aspectRatio initialApp) (customImagePrompt initialApp)))
   \<and> allDreams (handleRecordingComplete examplePlatform noImageRemote (str ''I was flying'') initialApp) = []
   \<and> storage (handleRecordingComplete examplePlatform noImageRemote (str ''I was flying'') initialApp)
       = emptyStorage
   \<and> allDreams (handleRecordingComplete examplePlatform exampleRemote (str ''I was flying'') initialApp)
       \<noteq> allDreams initialApp
   \<and> allDreams (handleRecordingComplete examplePlatform exampleRemote (str ''I was flying'') initialApp)
       = [\<lparr>id' = str ''1704178800000'', date' = str ''2024-01-02T07:00:00.000Z'',
           transcription' = str ''I was flying'',
           imageUrl' = str ''data:image/jpeg;base64,QUJD'',
           interpretation' = str ''**Core Emotional Theme:** awe'', isFavorite' = Some False\<rparr>]"
proof -
  have h: "isl (snd (generateDreamImage noImageRemote (str ''I was flying'') (artStyle initialApp)
        (aspectRatio initialApp) (customImagePrompt initialApp)))"
    by (simp add: generateDreamImage_def noImageRemote_def exampleRemote_def Let_def)
  have img: "snd (generateDreamImage exampleRemote (str ''I was flying'') (artStyle initialApp)
        (aspectRatio initialApp) (customImagePrompt initialApp)) = Inr (str ''data:image/jpeg;base64,QUJD'')"
    by (simp add: generateDreamImage_def exampleRemote_def Let_def str_def)
  have itp: "snd (interpretDream exampleRemote (str ''I was flying'')) = Inr (str ''**Core Emotional Theme:** awe'')"
    by (simp add: interpretDream_def exampleRemote_def)
  have ne: "trim (str ''I was flying'') \<noteq> []"
    by (simp add: trim_def str_def is_white_space_def)
  have k: "allDreams (handleRecordingComplete examplePlatform exampleRemote (str ''I was flying'') initialApp)
       \<noteq> allDreams initialApp"
    using ne img itp
    by (simp add: handleRecordingComplete_def generateDreamAnalysis_def Let_def initialApp_def)
  show ?thesis
    using h k
      dream_entry_saved_only_after_both[of noImageRemote "str ''I was flying''" initialApp examplePlatform]
      dream_entry_saved_only_after_both[of exampleRemote "str ''I was flying''" initialApp examplePlatform]
    unfolding img itp
    by (simp add: initialApp_def exampleRemote_def)
qed


subsection \<open>Toggling the favorite flag\<close>

text \<open>
  Claim C10 says the flag is negated in the persisted store as well. \<open>saveDreams\<close>
  swallows a failed write: with no room left in the store, the flag of the entry is
  negated in memory while the store keeps the serialisation of the old list.
\<close>

theorem toggle_lost_when_write_fails:
  "allDreams fullStorageApp = [dream2, dream1]
   \<and> allDreams (handleToggleFavorite examplePlatform (id' dream1) fullStorageApp)
       = [dream2, dream1\<lparr>isFavorite' := Some True\<rparr>]
   \<and> storage (handleToggleFavorite examplePlatform (id' dream1) fullStorageApp)
       = storage fullStorageApp
   \<and> getItem DREAMS_KEY (storage fullStorageApp)
       = Some (JSON_stringify examplePlatform [dream2, dream1])
   \<and> JSON_stringify examplePlatform [dream2, dream1\<lparr>isFavorite' := Some True\<rparr>]
       \<noteq> JSON_stringify examplePlatform [dream2, dream1]"
  by (simp add: handleToggleFavorite_def saveDreams_def setItem_def getItem_def truthy_def
      example2_defs)

text \<open>Helper facts about the two maps.\<close>

lemma toggle_nth:
  "i < length ds \<Longrightarrow>
   map (\<lambda>d. if id' d = k then d\<lparr>isFavorite' := Some (\<not> truthy (isFavorite' d))\<rparr> else d) ds ! i =
     (if id' (ds ! i) = k then (ds ! i)\<lparr>isFavorite' := Some (\<not> truthy (isFavorite' (ds ! i)))\<rparr>
      else ds ! i)"
  by simp

lemma update_is_toggle:
  assumes "\<forall>d\<in>set ds. id' d = id' dream \<longrightarrow> d = dream"
    and "b = Some (\<not> truthy (isFavorite' dream))"
  shows "map (\<lambda>d. if id' d = id' dream then dream\<lparr>isFavorite' := b\<rparr> else d) ds =
     map (\<lambda>d. if id' d = id' dream then d\<lparr>isFavorite' := Some (\<not> truthy (isFavorite' d))\<rparr> else d) ds"
  using assms by (induction ds) auto

text \<open>
  Claim C10, amended. For every list and id, toggling negates the flag of each entry with
  that id (an absent flag counts as false) and leaves its other fields, and every other
  entry, as they were in the list in memory. The store is then overwritten with the
  serialisation of that updated list; when the write does not fit, the store stays as it
  was. Toggling from the analysis view does the same to the list and the store when the
  dream on view is the list's entry with that id.
\<close>

theorem toggle_favorite_frame:
  "length (allDreams (handleToggleFavorite P dreamId a)) = length (allDreams a)
   \<and> (\<forall>i<length (allDreams a).
        (id' (allDreams a ! i) = dreamId \<longrightarrow>
           allDreams (handleToggleFavorite P dreamId a) ! i =
             (allDreams a ! i)\<lparr>isFavorite' := Some (\<not> truthy (isFavorite' (allDreams a ! i)))\<rparr>)
        \<and> (id' (allDreams a ! i) \<noteq> dreamId \<longrightarrow>
           allDreams (handleToggleFavorite P dreamId a) ! i = allDreams a ! i))
   \<and> (length DREAMS_KEY + length (JSON_stringify P (allDreams (handleToggleFavorite P dreamId a)))
         \<le> quota (storage a) \<longrightarrow>
       storage (handleToggleFavorite P dreamId a) =
         (storage a)\<lparr>items := (items (storage a))
            (DREAMS_KEY \<mapsto> JSON_stringify P (allDreams (handleToggleFavorite P dreamId a)))\<rparr>)
   \<and> (quota (storage a)
         < length DREAMS_KEY + length (JSON_stringify P (allDreams (handleToggleFavorite P dreamId a))) \<longrightarrow>
       storage (handleToggleFavorite P dreamId a) = storage a)
   \<and> ((\<forall>d\<in>set (allDreams a). id' d = id' dream \<longrightarrow> d = dream) \<longrightarrow>
       allDreams (DreamAnalysis_handleToggleFavorite P dream a) =
         allDreams (handleToggleFavorite P (id' dream) a)
       \<and> storage (DreamAnalysis_handleToggleFavorite P dream a) =
         storage (handleToggleFavorite P (id' dream) a))"
proof -
  let ?toggled = "map (\<lambda>d. if id' d = dreamId
      then d\<lparr>isFavorite' := Some (\<not> truthy (isFavorite' d))\<rparr> else d) (allDreams a)"
  have mem: "allDreams (handleToggleFavorite P dreamId a) = ?toggled"
    by (simp add: handleToggleFavorite_def Let_def)
  have sto: "storage (handleToggleFavorite P dreamId a) = saveDreams P ?toggled (storage a)"
    by (simp add: handleToggleFavorite_def Let_def)
  have entries: "\<forall>i<length (allDreams a).
        (id' (allDreams a ! i) = dreamId \<longrightarrow>
           ?toggled ! i =
             (allDreams a ! i)\<lparr>isFavorite' := Some (\<not> truthy (isFavorite' (allDreams a ! i)))\<rparr>)
        \<and> (id' (allDreams a ! i) \<noteq> dreamId \<longrightarrow> ?toggled ! i = allDreams a ! i)"
    by (simp add: toggle_nth)
  have view: "allDreams (DreamAnalysis_handleToggleFavorite P dream a) =
         allDreams (handleToggleFavorite P (id' dream) a)
       \<and> storage (DreamAnalysis_handleToggleFavorite P dream a) =
         storage (handleToggleFavorite P (id' dream) a)"
    if own: "\<forall>d\<in>set (allDreams a). id' d = id' dream \<longrightarrow> d = dream"
  proof -
    have upd: "map (\<lambda>d. if id' d = id' dream
          then dream\<lparr>isFavorite' := Some (\<not> truthy (isFavorite' dream))\<rparr> else d) (allDreams a) =
        map (\<lambda>d. if id' d = id' dream
          then d\<lparr>isFavorite' := Some (\<not> truthy (isFavorite' d))\<rparr> else d) (allDreams a)"
      using own by (rule update_is_toggle) simp
    show ?thesis
      by (simp add: DreamAnalysis_handleToggleFavorite_def handleUpdateDream_def
          handleToggleFavorite_def Let_def upd)
  qed
  show ?thesis
    unfolding mem sto using entries view saveDreams_cases[of P ?toggled "storage a"]
    by simp
qed

theorem toggle_favorite_frame_witness:
  "allDreams journalApp = [dream2, dream1]
   \<and> id' dream1 \<noteq> id' dream2
   \<and> allDreams (handleToggleFavorite examplePlatform (id' dream1) journalApp)
       = [dream2, dream1\<lparr>isFavorite' := Some True\<rparr>]
   \<and> getItem DREAMS_KEY (storage (handleToggleFavorite examplePlatform (id' dream1) journalApp))
       = Some (JSON_stringify examplePlatform [dream2, dream1\<lparr>isFavorite' := Some True\<rparr>])
   \<and> allDreams (handleToggleFavorite examplePlatform (id' dream2) journalApp)
       = [dream2\<lparr>isFavorite' := Some True\<rparr>, dream1]
   \<and> allDreams (DreamAnalysis_handleToggleFavorite examplePlatform dream1 journalApp)
       = [dream2, dream1\<lparr>isFavorite' := Some True\<rparr>]
   \<and> storage (handleToggleFavorite examplePlatform (id' dream1) fullStorageApp)
       = storage fullStorageApp"
proof -
  have ids: "id' dream1 \<noteq> id' dream2"
    by (simp add: example2_defs)
  have lists: "allDreams journalApp = [dream2, dream1]" "allDreams fullStorageApp = [dream2, dream1]"
    by (simp_all add: journalApp_def fullStorageApp_def initialApp_def)
  have own: "\<forall>d\<in>set (allDreams journalApp). id' d = id' dream1 \<longrightarrow> d = dream1"
    using ids by (simp add: lists)
  have fav: "\<not> truthy (isFavorite' dream1)" "\<not> truthy (isFavorite' dream2)"
    by (simp_all add: truthy_def dream1_def dream2_def)
  have room: "length DREAMS_KEY + length (JSON_stringify examplePlatform
        (allDreams (handleToggleFavorite examplePlatform (id' dream1) journalApp)))
      \<le> quota (storage journalApp)"
    by (simp add: handleToggleFavorite_def Let_def truthy_def example2_defs)
  have full: "quota (storage fullStorageApp) < length DREAMS_KEY + length (JSON_stringify examplePlatform
        (allDreams (handleToggleFavorite examplePlatform (id' dream1) fullStorageApp)))"
    by (simp add: fullStorageApp_def DREAMS_KEY_def str_def)
  have a1: "allDreams (handleToggleFavorite examplePlatform (id' dream1) journalApp)
       = [dream2, dream1\<lparr>isFavorite' := Some True\<rparr>]"
    using ids fav by (simp add: handleToggleFavorite_def Let_def lists)
  have a2: "allDreams (handleToggleFavorite examplePlatform (id' dream2) journalApp)
       = [dream2\<lparr>isFavorite' := Some True\<rparr>, dream1]"
    using ids fav by (simp add: handleToggleFavorite_def Let_def lists)
  show ?thesis
    using ids lists(1) a1 a2 own room full
      toggle_favorite_frame[of examplePlatform "id' dream1" journalApp dream1]
      toggle_favorite_frame[of examplePlatform "id' dream1" fullStorageApp dream1]
    by (simp add: getItem_def)
qed

subsection \<open>The history view\<close>

lemma mset_insert_sorted: "mset (insert_sorted c x xs) = add_mset x (mset xs)"
  by (induction xs) auto

lemma mset_array_sort: "mset (array_sort c xs) = mset xs"
  unfolding array_sort_def by (induction xs) (auto simp: mset_insert_sorted)

lemma set_insert_sorted: "set (insert_sorted c x xs) = insert x (set xs)"
  using mset_insert_sorted[of c x xs] by (metis set_mset_add_mset_insert set_mset_mset)

lemma compare_le_iff:
  assumes "dated P x" "dated P y"
  shows "(sortCompare (compareFn P) x y \<le> 0) = history_before P x y"
  using assms
  by (auto simp: sortCompare_def compareFn_def history_before_def dated_def)

lemma history_before_total:
  assumes "dated P x" "dated P y" "\<not> history_before P x y"
  shows "history_before P y x"
  using assms by (auto simp: history_before_def dated_def)

lemma history_before_trans:
  assumes "dated P x" "dated P y" "dated P z" "history_before P x y" "history_before P y z"
  shows "history_before P x z"
  using assms by (auto simp: history_before_def dated_def)

lemma sorted_insert_sorted:
  assumes "sorted_wrt (history_before P) xs" "dated P x" "\<forall>y\<in>set xs. dated P y"
  shows "sorted_wrt (history_before P) (insert_sorted (compareFn P) x xs)"
  using assms
proof (induction xs)
  case Nil
  then show ?case by simp
next
  case (Cons y ys)
  have dy: "dated P y" and dys: "\<forall>z\<in>set ys. dated P z"
    using Cons.prems(3) by simp_all
  have sys: "sorted_wrt (history_before P) ys" and yys: "\<forall>z\<in>set ys. history_before P y z"
    using Cons.prems(1) by simp_all
  show ?case
  proof (cases "history_before P x y")
    case True
    have "\<forall>z\<in>set ys. history_before P x z"
      using True yys dys dy Cons.prems(2) history_before_trans by blast
    with True Cons.prems(1,2) dy show ?thesis
      by (simp add: compare_le_iff)
  next
    case False
    then have "history_before P y x"
      using Cons.prems(2) dy by (rule history_before_total[rotated 2])
    moreover have "sorted_wrt (history_before P) (insert_sorted (compareFn P) x ys)"
      using sys Cons.prems(2) dys by (rule Cons.IH)
    ultimately show ?thesis
      using False yys Cons.prems(2) dy
      by (simp add: compare_le_iff set_insert_sorted)
  qed
qed

lemma sorted_array_sort:
  assumes "\<forall>y\<in>set xs. dated P y"
  shows "sorted_wrt (history_before P) (array_sort (compareFn P) xs)"
  using assms
proof (induction xs)
  case Nil
  then show ?case by (simp add: array_sort_def)
next
  case (Cons x xs)
  have "sorted_wrt (history_before P) (array_sort (compareFn P) xs)"
    using Cons by simp
  moreover have "\<forall>y\<in>set (array_sort (compareFn P) xs). dated P y"
    using Cons.prems mset_array_sort[of "compareFn P" xs] by (metis list.set_intros(2) set_mset_mset)
  ultimately have "sorted_wrt (history_before P)
      (insert_sorted (compareFn P) x (array_sort (compareFn P) xs))"
    using Cons.prems by (intro sorted_insert_sorted) simp_all
  then show ?case
    by (simp add: array_sort_def)
qed

text \<open>
  Claim C5. When every entry's date parses to a time, the history view is a rearrangement
  of the list in which no entry that is not a favorite stands before a favorite, whatever
  their times, and of two entries with the same favorite status the one standing first is
  at least as new.
\<close>

theorem sortedDreams_favorites_then_newest:
  assumes "\<forall>d\<in>set (allDreams a). dated P d"
  shows "mset (sortedDreams P a) = mset (allDreams a)
     \<and> (\<forall>i j. i < j \<and> j < length (sortedDreams P a) \<longrightarrow>
          (truthy (isFavorite' (sortedDreams P a ! j)) \<longrightarrow> truthy (isFavorite' (sortedDreams P a ! i)))
          \<and> (truthy (isFavorite' (sortedDreams P a ! i)) = truthy (isFavorite' (sortedDreams P a ! j))
               \<longrightarrow> (\<forall>ti tj. getTime P (date' (sortedDreams P a ! i)) = Some ti
                      \<and> getTime P (date' (sortedDreams P a ! j)) = Some tj \<longrightarrow> tj \<le> ti)))
     \<and> sorted_wrt (history_before P) (sortedDreams P a)"
proof -
  have m: "mset (sortedDreams P a) = mset (allDreams a)"
    by (simp add: sortedDreams_def mset_array_sort)
  have s: "sorted_wrt (history_before P) (sortedDreams P a)"
    unfolding sortedDreams_def using assms by (rule sorted_array_sort)
  have "(truthy (isFavorite' (sortedDreams P a ! j)) \<longrightarrow> truthy (isFavorite' (sortedDreams P a ! i)))
          \<and> (truthy (isFavorite' (sortedDreams P a ! i)) = truthy (isFavorite' (sortedDreams P a ! j))
               \<longrightarrow> (\<forall>ti tj. getTime P (date' (sortedDreams P a ! i)) = Some ti
                      \<and> getTime P (date' (sortedDreams P a ! j)) = Some tj \<longrightarrow> tj \<le> ti))"
    if "i < j \<and> j < length (sortedDreams P a)" for i j
  proof -
    have "history_before P (sortedDreams P a ! i) (sortedDreams P a ! j)"
      using s that by (simp add: sorted_wrt_iff_nth_less)
    then show ?thesis
      by (auto simp: history_before_def split: option.splits)
  qed
  with m s show ?thesis
    by blast
qed

theorem sortedDreams_favorites_then_newest_witness:
  "list_all (dated examplePlatform) (allDreams sortApp)
   \<and> allDreams sortApp = [dream1, dream2, dream3]
   \<and> getTime examplePlatform (date' dream3) = Some 1704092400000
   \<and> getTime examplePlatform (date' dream2) = Some 1704178800000
   \<and> truthy (isFavorite' dream3) \<and> \<not> truthy (isFavorite' dream2) \<and> \<not> truthy (isFavorite' dream1)
   \<and> sortedDreams examplePlatform sortApp = [dream3, dream2, dream1]
   \<and> sorted_wrt (history_before examplePlatform) [dream3, dream2, dream1]"
proof -
  have h: "\<forall>d\<in>set (allDreams sortApp). dated examplePlatform d"
    by (simp add: sortApp_def initialApp_def dated_def dream1_def dream2_def dream3_def
        examplePlatform_def str_def)
  have e: "sortedDreams examplePlatform sortApp = [dream3, dream2, dream1]"
    by (simp add: sortedDreams_def array_sort_def sortCompare_def compareFn_def truthy_def
        sortApp_def initialApp_def dream1_def dream2_def dream3_def examplePlatform_def str_def)
  have t: "getTime examplePlatform (date' dream3) = Some 1704092400000"
    "getTime examplePlatform (date' dream2) = Some 1704178800000"
    "truthy (isFavorite' dream3)" "\<not> truthy (isFavorite' dream2)" "\<not> truthy (isFavorite' dream1)"
    by (simp_all add: truthy_def dream1_def dream2_def dream3_def examplePlatform_def str_def)
  show ?thesis
    using h t sortedDreams_favorites_then_newest[OF h] unfolding e
    by (simp add: list_all_iff sortApp_def initialApp_def)
qed


end
